theory Spec2Isabelle
  imports Main "HOL-Library.Word"
begin

section \<open>MPF codec: data model\<close>

text \<open>
  The header \<^verbatim>\<open>libs/mpf/include/mpf_codec.h\<close> declares a codec object, its table of
  virtual methods and ten inline functions around that table. The embedding has one
  byte-addressed memory. Everything the dissector and the silence fill reach through a
  data pointer lives in it: the packet, the frame's payload, the frame struct itself and
  the two cells \<^verbatim>\<open>*buffer\<close> and \<^verbatim>\<open>*size\<close>. An address is a word of the width of \<^verbatim>\<open>apr_size_t\<close>,
  the type parameter \<open>'a\<close>: every theorem holds for 32-bit and 64-bit builds alike.

  Codec objects, method tables, attributes, descriptors, pools and the encoder and
  decoder objects are reached through references (\<open>ptr\<close>) into typed stores. A codec
  object also has a place in memory, so that a copy or a fill whose extent reaches it is
  seen to destroy it.
\<close>

type_synonym apr_byte_t = "8 word"

datatype ptr = NULL | Ptr nat

subsection \<open>Memory\<close>

text \<open>
  The \<open>n\<close> bytes from \<open>p\<close> on, wrapping at the end of the address space: \<open>in_region a p n\<close>
  says that \<open>a\<close> is one of them, \<open>separate p n q k\<close> that the \<open>n\<close> bytes from \<open>p\<close> and the
  \<open>k\<close> bytes from \<open>q\<close> have no byte in common.
\<close>

definition in_region :: "'a::len word \<Rightarrow> 'a word \<Rightarrow> nat \<Rightarrow> bool" where
  "in_region a p n \<longleftrightarrow> unat (a - p) < n"

definition separate :: "'a::len word \<Rightarrow> nat \<Rightarrow> 'a word \<Rightarrow> nat \<Rightarrow> bool" where
  "separate p n q k \<longleftrightarrow> n = 0 \<or> k = 0 \<or> (n \<le> unat (q - p) \<and> k \<le> unat (p - q))"

text \<open>
  A pointer or an \<^verbatim>\<open>apr_size_t\<close> occupies \<open>word_bytes\<close> bytes, least significant byte
  first: \<open>load m p\<close> is \<^verbatim>\<open>*p\<close> and \<open>store m p v\<close> is \<^verbatim>\<open>*p = v\<close>. The general theorems
  do not depend on the byte order; the numbers in the instances do. Reading or writing
  through a null or invalid data pointer is undefined in C; here every address holds a
  byte.
\<close>

fun load_bytes :: "nat \<Rightarrow> ('a::len word \<Rightarrow> apr_byte_t) \<Rightarrow> 'a word \<Rightarrow> nat" where
  "load_bytes 0 m p = 0"
| "load_bytes (Suc n) m p = unat (m p) + 256 * load_bytes n m (p + 1)"

fun store_bytes ::
  "nat \<Rightarrow> nat \<Rightarrow> ('a::len word \<Rightarrow> apr_byte_t) \<Rightarrow> 'a word \<Rightarrow> ('a word \<Rightarrow> apr_byte_t)" where
  "store_bytes 0 v m p = m"
| "store_bytes (Suc n) v m p = (store_bytes n (v div 256) m (p + 1))(p := of_nat (v mod 256))"

definition word_bytes :: "'a::len word \<Rightarrow> nat" where
  "word_bytes p = (LENGTH('a) + 7) div 8"

definition load :: "('a::len word \<Rightarrow> apr_byte_t) \<Rightarrow> 'a word \<Rightarrow> 'a word" where
  "load m p = of_nat (load_bytes (word_bytes p) m p)"

definition store ::
  "('a::len word \<Rightarrow> apr_byte_t) \<Rightarrow> 'a word \<Rightarrow> 'a word \<Rightarrow> ('a word \<Rightarrow> apr_byte_t)" where
  "store m p v = store_bytes (word_bytes p) (unat v) m p"

text \<open>
  \<^verbatim>\<open>memcpy\<close> and \<^verbatim>\<open>memset\<close> of the C library, by their specification: the \<open>n\<close> bytes from
  \<open>dst\<close> on receive the \<open>n\<close> bytes from \<open>src\<close> on (read before the call), respectively
  the byte \<open>c\<close>; every other byte is kept. Offsets are unsigned words. C defines
  \<^verbatim>\<open>memcpy\<close> for regions that do not overlap; where they do, the definition still reads
  the source as it was before the call.
\<close>

definition memcpy ::
  "('a::len word \<Rightarrow> apr_byte_t) \<Rightarrow> 'a word \<Rightarrow> 'a word \<Rightarrow> 'a word \<Rightarrow> ('a word \<Rightarrow> apr_byte_t)" where
  "memcpy m dst src n = (\<lambda>a. if a - dst < n then m (src + (a - dst)) else m a)"

definition memset ::
  "('a::len word \<Rightarrow> apr_byte_t) \<Rightarrow> 'a word \<Rightarrow> apr_byte_t \<Rightarrow> 'a word \<Rightarrow> ('a word \<Rightarrow> apr_byte_t)" where
  "memset m dst c n = (\<lambda>a. if a - dst < n then c else m a)"

subsection \<open>Frames\<close>

text \<open>
  Modelled from the spec: \<^verbatim>\<open>mpf_codec_frame_t\<close> is declared in \<^verbatim>\<open>mpf_codec_descriptor.h\<close>,
  which is not among the sources. A codec frame is a buffer reference plus a declared
  byte size; the two fields are the ones this header reads, \<^verbatim>\<open>frame->buffer\<close> and
  \<^verbatim>\<open>frame->size\<close>, in this order. The field \<^verbatim>\<open>size\<close> is written \<open>size_f\<close> here, since \<open>size\<close>
  is a constant of HOL.
\<close>

record (overloaded) ('a::len) mpf_codec_frame_t =
  buffer :: "'a word"
  size_f :: "'a word"

text \<open>The frame struct at address \<open>frame\<close>: \<open>buffer (frame_at m frame)\<close> is
  \<^verbatim>\<open>frame->buffer\<close> and \<open>size_f (frame_at m frame)\<close> is \<^verbatim>\<open>frame->size\<close>, read from memory
  \<open>m\<close>. The struct occupies \<open>frame_bytes\<close> bytes.\<close>

definition frame_at :: "('a::len word \<Rightarrow> apr_byte_t) \<Rightarrow> 'a word \<Rightarrow> 'a mpf_codec_frame_t" where
  "frame_at m frame =
     \<lparr>buffer = load m frame, size_f = load m (frame + of_nat (word_bytes frame))\<rparr>"

definition frame_bytes :: "'a::len word \<Rightarrow> nat" where
  "frame_bytes frame = 2 * word_bytes frame"

subsection \<open>Codecs\<close>

text \<open>\<^verbatim>\<open>struct mpf_codec_t\<close>, lines 35 to 48.\<close>

record mpf_codec_t =
  vtable :: ptr
  attribs :: ptr
  static_descriptor :: ptr
  encoder_obj :: ptr
  decoder_obj :: ptr
  pool :: ptr

text \<open>
  The mutable state the functions of the header and the family methods work on: the
  byte memory and the store of codec objects. A codec pointer \<open>Ptr n\<close> names the \<open>n\<close>-th
  object of the store; the object occupies the \<open>codec_bytes\<close> bytes (six pointers) from
  \<open>codec_addr w n\<close> on, the place the allocator gave it. The allocator is outside the
  sources, so the placement is a parameter of the state.

  Pointers to codecs, method tables, attributes, descriptors and pools are references
  without a byte encoding. The fields of a codec object are therefore kept in the store:
  an access \<^verbatim>\<open>codec->field\<close> reads and writes the store, and \<open>mem\<close> is what a data pointer
  reads. What ties the two together is the extent of the object: a write through a data
  pointer that reaches a byte of the extent ends the object. Its entry becomes \<open>None\<close>:
  the fields are no longer known and the object cannot be dereferenced.
\<close>

record (overloaded) ('a::len) world =
  mem :: "'a word \<Rightarrow> apr_byte_t"
  codecs :: "mpf_codec_t option list"
  codec_addr :: "nat \<Rightarrow> 'a word"

definition codec_bytes :: "'a::len word \<Rightarrow> nat" where
  "codec_bytes p = 6 * word_bytes p"

text \<open>A write of the \<open>n\<close> bytes from \<open>p\<close> on that leaves memory \<open>m'\<close>: every codec object
  with a byte in the written region is lost.\<close>

definition write_mem ::
  "'a::len word \<Rightarrow> nat \<Rightarrow> ('a word \<Rightarrow> apr_byte_t) \<Rightarrow> 'a world \<Rightarrow> 'a world" where
  "write_mem p n m' w =
     w\<lparr>mem := m',
       codecs := map (\<lambda>i. if separate p n (codec_addr w i) (codec_bytes p)
                          then codecs w ! i else None)
                    [0..<length (codecs w)]\<rparr>"

text \<open>
  Modelled from the spec: \<^verbatim>\<open>apt_bool_t\<close>, \<^verbatim>\<open>TRUE\<close> and \<^verbatim>\<open>FALSE\<close> are declared outside the
  sources; every operation reports a single boolean success or failure signal.
\<close>

type_synonym apt_bool_t = bool

text \<open>
  Modelled from the spec: \<^verbatim>\<open>mpf_codec_format_match_f\<close> is declared outside the sources; it
  is a predicate of the family on two format descriptors, here on two references. No
  function of this header calls it.
\<close>

type_synonym mpf_codec_format_match_f = "ptr \<Rightarrow> ptr \<Rightarrow> apt_bool_t"

text \<open>
  \<^verbatim>\<open>struct mpf_codec_vtable_t\<close>, lines 51 to 75. A null function pointer is \<open>None\<close>. A
  method takes the codec pointer and the addresses it is passed (\<^verbatim>\<open>frame_in\<close>,
  \<^verbatim>\<open>frame_out\<close>; \<^verbatim>\<open>buffer\<close>, \<^verbatim>\<open>size\<close>, \<^verbatim>\<open>frame\<close>) and returns its result and the new state. A
  method that faults or does not return yields \<open>None\<close>.
\<close>

type_synonym 'a lifecycle_f = "ptr \<Rightarrow> 'a world \<Rightarrow> (apt_bool_t \<times> 'a world) option"

type_synonym 'a transcode_f =
  "ptr \<Rightarrow> 'a word \<Rightarrow> 'a word \<Rightarrow> 'a world \<Rightarrow> (apt_bool_t \<times> 'a world) option"

type_synonym 'a dissect_f =
  "ptr \<Rightarrow> 'a word \<Rightarrow> 'a word \<Rightarrow> 'a word \<Rightarrow> 'a world \<Rightarrow> (apt_bool_t \<times> 'a world) option"

type_synonym 'a fill_f =
  "ptr \<Rightarrow> 'a word \<Rightarrow> 'a world \<Rightarrow> (apt_bool_t \<times> 'a world) option"

record (overloaded) ('a::len) mpf_codec_vtable_t =
  open_encoder :: "'a lifecycle_f option"
  close_encoder :: "'a lifecycle_f option"
  open_decoder :: "'a lifecycle_f option"
  close_decoder :: "'a lifecycle_f option"
  encode :: "'a transcode_f option"
  decode :: "'a transcode_f option"
  dissect :: "'a dissect_f option"
  fill :: "'a fill_f option"
  match_formats :: "mpf_codec_format_match_f option"

text \<open>
  The method tables are constant data of the codec families (\<^verbatim>\<open>const mpf_codec_vtable_t *\<close>):
  they are an environment \<open>vts\<close> from references to tables, outside the mutable state.
\<close>

type_synonym 'a vtables = "nat \<Rightarrow> 'a mpf_codec_vtable_t option"

text \<open>Dereferencing a codec pointer: \<open>None\<close> for \<^verbatim>\<open>NULL\<close>, for a dangling reference and
  for an object that has been overwritten.\<close>

fun codec_at :: "'a::len world \<Rightarrow> ptr \<Rightarrow> mpf_codec_t option" where
  "codec_at w NULL = None"
| "codec_at w (Ptr n) = (if n < length (codecs w) then codecs w ! n else None)"

text \<open>A store through a codec pointer, \<^verbatim>\<open>codec->field = v\<close>: what a family method does to
  the object it is handed. Through a pointer that cannot be dereferenced it is a fault.\<close>

fun codec_update ::
  "ptr \<Rightarrow> (mpf_codec_t \<Rightarrow> mpf_codec_t) \<Rightarrow> 'a::len world \<Rightarrow> 'a world option" where
  "codec_update NULL g w = None"
| "codec_update (Ptr n) g w =
     (case codec_at w (Ptr n) of
        None \<Rightarrow> None
      | Some c \<Rightarrow> Some (w\<lparr>codecs := (codecs w)[n := Some (g c)]\<rparr>))"

text \<open>A method that stores into the codec it is handed and reports \<open>rv\<close>.\<close>

definition storing_method ::
  "apt_bool_t \<Rightarrow> (mpf_codec_t \<Rightarrow> mpf_codec_t) \<Rightarrow> 'a::len lifecycle_f" where
  "storing_method rv g codec w =
     (case codec_update codec g w of None \<Rightarrow> None | Some w' \<Rightarrow> Some (rv, w'))"

text \<open>\<^verbatim>\<open>codec->vtable\<close> followed to the table: \<open>None\<close> when either pointer cannot be
  dereferenced.\<close>

definition vtable_of :: "'a::len vtables \<Rightarrow> 'a world \<Rightarrow> ptr \<Rightarrow> 'a mpf_codec_vtable_t option" where
  "vtable_of vts w codec =
     (case codec_at w codec of
        None \<Rightarrow> None
      | Some c \<Rightarrow> (case vtable c of NULL \<Rightarrow> None | Ptr v \<Rightarrow> vts v))"

section \<open>The operations of the header\<close>

text \<open>
  \<^verbatim>\<open>mpf_codec_create\<close>, lines 84 to 98. \<^verbatim>\<open>apr_palloc\<close> of the Apache Portable Runtime
  hands out memory no live object occupies: the new object is appended to the store and
  its index is the pointer returned. Exhaustion of memory is not modelled. The six
  assignments are the six fields.
\<close>

definition mpf_codec_create ::
  "ptr \<Rightarrow> ptr \<Rightarrow> ptr \<Rightarrow> ptr \<Rightarrow> 'a::len world \<Rightarrow> ptr \<times> 'a world" where
  "mpf_codec_create vtable_p attribs_p descriptor pool_p w =
     (let codec = Ptr (length (codecs w))
      in (codec,
          w\<lparr>codecs := codecs w @
             [Some \<lparr>vtable = vtable_p,
                    attribs = attribs_p,
                    static_descriptor = descriptor,
                    encoder_obj = NULL,
                    decoder_obj = NULL,
                    pool = pool_p\<rparr>]\<rparr>))"

text \<open>\<^verbatim>\<open>mpf_codec_clone\<close>, lines 105 to 115. Reading \<^verbatim>\<open>src_codec->vtable\<close> through a
  pointer that cannot be dereferenced is a fault.\<close>

definition mpf_codec_clone :: "ptr \<Rightarrow> ptr \<Rightarrow> 'a::len world \<Rightarrow> (ptr \<times> 'a world) option" where
  "mpf_codec_clone src_codec pool_p w =
     (case codec_at w src_codec of
        None \<Rightarrow> None
      | Some src \<Rightarrow>
          (let codec = Ptr (length (codecs w))
           in Some (codec,
                w\<lparr>codecs := codecs w @
                   [Some \<lparr>vtable = vtable src,
                          attribs = attribs src,
                          static_descriptor = static_descriptor src,
                          encoder_obj = NULL,
                          decoder_obj = NULL,
                          pool = pool_p\<rparr>]\<rparr>)))"

text \<open>The four lifecycle wrappers, lines 118 to 155: \<^verbatim>\<open>rv = TRUE\<close>, overwritten by the
  method's result when the table has one.\<close>

definition mpf_codec_encoder_open ::
  "'a::len vtables \<Rightarrow> 'a lifecycle_f" where
  "mpf_codec_encoder_open vts codec w =
     (case vtable_of vts w codec of
        None \<Rightarrow> None
      | Some vt \<Rightarrow> (case open_encoder vt of None \<Rightarrow> Some (True, w) | Some f \<Rightarrow> f codec w))"

definition mpf_codec_encoder_close ::
  "'a::len vtables \<Rightarrow> 'a lifecycle_f" where
  "mpf_codec_encoder_close vts codec w =
     (case vtable_of vts w codec of
        None \<Rightarrow> None
      | Some vt \<Rightarrow> (case close_encoder vt of None \<Rightarrow> Some (True, w) | Some f \<Rightarrow> f codec w))"

definition mpf_codec_decoder_open ::
  "'a::len vtables \<Rightarrow> 'a lifecycle_f" where
  "mpf_codec_decoder_open vts codec w =
     (case vtable_of vts w codec of
        None \<Rightarrow> None
      | Some vt \<Rightarrow> (case open_decoder vt of None \<Rightarrow> Some (True, w) | Some f \<Rightarrow> f codec w))"

definition mpf_codec_decoder_close ::
  "'a::len vtables \<Rightarrow> 'a lifecycle_f" where
  "mpf_codec_decoder_close vts codec w =
     (case vtable_of vts w codec of
        None \<Rightarrow> None
      | Some vt \<Rightarrow> (case close_decoder vt of None \<Rightarrow> Some (True, w) | Some f \<Rightarrow> f codec w))"

text \<open>\<^verbatim>\<open>mpf_codec_encode\<close> and \<^verbatim>\<open>mpf_codec_decode\<close>, lines 158 to 175. The frames are
  passed by address; without a method nothing is read or written through them.\<close>

definition mpf_codec_encode ::
  "'a::len vtables \<Rightarrow> 'a transcode_f" where
  "mpf_codec_encode vts codec frame_in frame_out w =
     (case vtable_of vts w codec of
        None \<Rightarrow> None
      | Some vt \<Rightarrow>
          (case encode vt of
             None \<Rightarrow> Some (True, w)
           | Some f \<Rightarrow> f codec frame_in frame_out w))"

definition mpf_codec_decode ::
  "'a::len vtables \<Rightarrow> 'a transcode_f" where
  "mpf_codec_decode vts codec frame_in frame_out w =
     (case vtable_of vts w codec of
        None \<Rightarrow> None
      | Some vt \<Rightarrow>
          (case decode vt of
             None \<Rightarrow> Some (True, w)
           | Some f \<Rightarrow> f codec frame_in frame_out w))"

text \<open>
  \<^verbatim>\<open>mpf_codec_dissect\<close>, lines 178 to 198, with \<open>buffer_p\<close> for \<^verbatim>\<open>void **buffer\<close>, \<open>size_p\<close>
  for \<^verbatim>\<open>apr_size_t *size\<close> and \<open>frame\<close> for \<^verbatim>\<open>mpf_codec_frame_t *frame\<close>. The default
  dissector tests \<^verbatim>\<open>*size >= frame->size && frame->size\<close> (line 187); then, each statement
  reading memory as the one before left it:
  \<^item> line 188, \<^verbatim>\<open>memcpy(frame->buffer,*buffer,frame->size)\<close>, gives \<open>w1\<close>;
  \<^item> line 190, \<^verbatim>\<open>*buffer = (apr_byte_t*)*buffer + frame->size\<close>, gives \<open>w2\<close>;
  \<^item> line 191, \<^verbatim>\<open>*size = *size - frame->size\<close>, gives \<open>w3\<close>.
\<close>

definition mpf_codec_dissect :: "'a::len vtables \<Rightarrow> 'a dissect_f" where
  "mpf_codec_dissect vts codec buffer_p size_p frame w =
     (case vtable_of vts w codec of
        None \<Rightarrow> None
      | Some vt \<Rightarrow>
          (case dissect vt of
             Some f \<Rightarrow> f codec buffer_p size_p frame w
           | None \<Rightarrow>
               (if load (mem w) size_p \<ge> size_f (frame_at (mem w) frame)
                   \<and> size_f (frame_at (mem w) frame) \<noteq> 0 then
                  (let w1 = write_mem (buffer (frame_at (mem w) frame))
                              (unat (size_f (frame_at (mem w) frame)))
                              (memcpy (mem w) (buffer (frame_at (mem w) frame))
                                 (load (mem w) buffer_p) (size_f (frame_at (mem w) frame)))
                              w;
                       w2 = write_mem buffer_p (word_bytes buffer_p)
                              (store (mem w1) buffer_p
                                 (load (mem w1) buffer_p + size_f (frame_at (mem w1) frame)))
                              w1;
                       w3 = write_mem size_p (word_bytes size_p)
                              (store (mem w2) size_p
                                 (load (mem w2) size_p - size_f (frame_at (mem w2) frame)))
                              w2
                   in Some (True, w3))
                else Some (False, w))))"

text \<open>\<^verbatim>\<open>mpf_codec_fill\<close>, lines 201 to 211: \<^verbatim>\<open>memset(frame_out->buffer,0,frame_out->size)\<close>.\<close>

definition mpf_codec_fill :: "'a::len vtables \<Rightarrow> 'a fill_f" where
  "mpf_codec_fill vts codec frame_out w =
     (case vtable_of vts w codec of
        None \<Rightarrow> None
      | Some vt \<Rightarrow>
          (case fill vt of
             Some f \<Rightarrow> f codec frame_out w
           | None \<Rightarrow>
               Some (True,
                     write_mem (buffer (frame_at (mem w) frame_out))
                       (unat (size_f (frame_at (mem w) frame_out)))
                       (memset (mem w) (buffer (frame_at (mem w) frame_out)) 0
                          (size_f (frame_at (mem w) frame_out)))
                       w)))"

text \<open>
  A caller that dissects a packet: \<open>n\<close> calls in a row with the same three addresses,
  each call starting from the state the one before left. The trace records, for every
  call, its return value and the values of \<^verbatim>\<open>*buffer\<close> and \<^verbatim>\<open>*size\<close> after it.
\<close>

fun dissect_calls ::
  "'a::len vtables \<Rightarrow> ptr \<Rightarrow> nat \<Rightarrow> 'a word \<Rightarrow> 'a word \<Rightarrow> 'a word \<Rightarrow> 'a world
    \<Rightarrow> ((apt_bool_t \<times> 'a word \<times> 'a word) list \<times> 'a world) option" where
  "dissect_calls vts codec 0 buffer_p size_p frame w = Some ([], w)"
| "dissect_calls vts codec (Suc n) buffer_p size_p frame w =
     (case mpf_codec_dissect vts codec buffer_p size_p frame w of
        None \<Rightarrow> None
      | Some (rv, w') \<Rightarrow>
          (case dissect_calls vts codec n buffer_p size_p frame w' of
             None \<Rightarrow> None
           | Some (tr, w'') \<Rightarrow>
               Some ((rv, load (mem w') buffer_p, load (mem w') size_p) # tr, w'')))"

section \<open>Separation\<close>

text \<open>
  \<open>cells_apart m buffer_p size_p frame\<close>: in memory \<open>m\<close>, the frame's payload extent (the
  \<^verbatim>\<open>frame->size\<close> bytes from \<^verbatim>\<open>frame->buffer\<close> on), the frame struct, the cell \<^verbatim>\<open>*buffer\<close> and
  the cell \<^verbatim>\<open>*size\<close> are four regions of memory no two of which share a byte.
  \<open>codec_apart w n buffer_p size_p frame\<close>: none of the three regions the default
  dissector writes (payload extent and the two cells) shares a byte with codec object
  \<open>n\<close>.
\<close>

definition cells_apart ::
  "('a::len word \<Rightarrow> apr_byte_t) \<Rightarrow> 'a word \<Rightarrow> 'a word \<Rightarrow> 'a word \<Rightarrow> bool" where
  "cells_apart m buffer_p size_p frame \<longleftrightarrow>
     separate (buffer (frame_at m frame)) (unat (size_f (frame_at m frame)))
       frame (frame_bytes frame)
   \<and> separate (buffer (frame_at m frame)) (unat (size_f (frame_at m frame)))
       buffer_p (word_bytes buffer_p)
   \<and> separate (buffer (frame_at m frame)) (unat (size_f (frame_at m frame)))
       size_p (word_bytes size_p)
   \<and> separate buffer_p (word_bytes buffer_p) size_p (word_bytes size_p)
   \<and> separate buffer_p (word_bytes buffer_p) frame (frame_bytes frame)
   \<and> separate size_p (word_bytes size_p) frame (frame_bytes frame)"

definition codec_apart ::
  "'a::len world \<Rightarrow> nat \<Rightarrow> 'a word \<Rightarrow> 'a word \<Rightarrow> 'a word \<Rightarrow> bool" where
  "codec_apart w n buffer_p size_p frame \<longleftrightarrow>
     separate (buffer (frame_at (mem w) frame)) (unat (size_f (frame_at (mem w) frame)))
       (codec_addr w n) (codec_bytes frame)
   \<and> separate buffer_p (word_bytes buffer_p) (codec_addr w n) (codec_bytes frame)
   \<and> separate size_p (word_bytes size_p) (codec_addr w n) (codec_bytes frame)"

section \<open>Example families and states for the instances\<close>

text \<open>
  Two families for the instances, in a 64-bit build. The first implements nothing (linear
  PCM needs no dissector and no lifecycle methods). The second has the four lifecycle
  methods: opening the encoder or the decoder stores an object in the codec it is handed,
  closing the encoder clears it, and closing the decoder reports failure. The state \<open>w0\<close>
  holds one codec of each family, placed from address 65536 on; its memory holds the
  byte \<open>a mod 256\<close> at address \<open>a\<close>.
\<close>

definition bare_vtable :: "64 mpf_codec_vtable_t" where
  "bare_vtable =
     \<lparr>open_encoder = None, close_encoder = None, open_decoder = None, close_decoder = None,
      encode = None, decode = None, dissect = None, fill = None, match_formats = None\<rparr>"

definition stateful_vtable :: "64 mpf_codec_vtable_t" where
  "stateful_vtable =
     \<lparr>open_encoder = Some (storing_method True (\<lambda>obj. obj\<lparr>encoder_obj := Ptr 100\<rparr>)),
      close_encoder = Some (storing_method True (\<lambda>obj. obj\<lparr>encoder_obj := NULL\<rparr>)),
      open_decoder = Some (storing_method True (\<lambda>obj. obj\<lparr>decoder_obj := Ptr 200\<rparr>)),
      close_decoder = Some (\<lambda>c w. Some (False, w)),
      encode = None, decode = None, dissect = None, fill = None, match_formats = None\<rparr>"

definition vts0 :: "64 vtables" where
  "vts0 = (\<lambda>v. if v = 0 then Some bare_vtable else if v = 1 then Some stateful_vtable else None)"

definition codec0 :: mpf_codec_t where
  "codec0 =
     \<lparr>vtable = Ptr 0, attribs = Ptr 1, static_descriptor = NULL,
      encoder_obj = NULL, decoder_obj = NULL, pool = Ptr 7\<rparr>"

definition codec1 :: mpf_codec_t where
  "codec1 =
     \<lparr>vtable = Ptr 1, attribs = Ptr 2, static_descriptor = Ptr 3,
      encoder_obj = NULL, decoder_obj = NULL, pool = Ptr 7\<rparr>"

definition w0 :: "64 world" where
  "w0 = \<lparr>mem = (\<lambda>a. ucast a), codecs = [Some codec0, Some codec1],
         codec_addr = (\<lambda>n. 65536 + 48 * of_nat n)\<rparr>"

text \<open>
  \<open>layout fb F cur rem\<close> is \<open>w0\<close> with a frame struct at address 2000 holding
  \<^verbatim>\<open>buffer\<close> = \<open>fb\<close> and \<^verbatim>\<open>size\<close> = \<open>F\<close>, the cell \<^verbatim>\<open>*buffer\<close> at address 3000 holding \<open>cur\<close> and
  the cell \<^verbatim>\<open>*size\<close> at address 3008 holding \<open>rem\<close>.
\<close>

definition layout :: "64 word \<Rightarrow> 64 word \<Rightarrow> 64 word \<Rightarrow> 64 word \<Rightarrow> 64 world" where
  "layout fb F cur rem =
     w0\<lparr>mem := store (store (store (store (mem w0) 2000 fb) 2008 F) 3000 cur) 3008 rem\<rparr>"

text \<open>
  Two states in which the payload extent of the frame is not apart from the rest: in
  \<open>w_payload_on_size\<close> the frame's buffer pointer is the address of the cell \<^verbatim>\<open>*size\<close>
  (frame size 8, 50 bytes remaining); in \<open>w_payload_on_frame\<close> it is the address of the
  frame struct itself (frame size 16, 50 bytes remaining). The cursor is at address 100
  in both.
\<close>

definition w_payload_on_size :: "64 world" where
  "w_payload_on_size = layout 3008 8 100 50"

definition w_payload_on_frame :: "64 world" where
  "w_payload_on_frame = layout 2000 16 100 50"

section \<open>Auxiliary facts: memory\<close>

lemma separate_not_both:
  assumes "separate p n q k" and "in_region a p n"
  shows "\<not> in_region a q k"
proof
  assume q: "in_region a q k"
  from assms(2) q have n: "unat (a - p) < n" and k: "unat (a - q) < k"
    by (simp_all add: in_region_def)
  with assms(1) have s1: "n \<le> unat (q - p)" and s2: "k \<le> unat (p - q)"
    by (auto simp: separate_def)
  show False
  proof (cases "a - q \<le> a - p")
    case True
    then have "unat ((a - p) - (a - q)) = unat (a - p) - unat (a - q)" by (rule unat_sub)
    moreover have "(a - p) - (a - q) = q - p" by simp
    ultimately have "unat (q - p) \<le> unat (a - p)" by simp
    with n s1 show False by simp
  next
    case False
    then have "a - p \<le> a - q" by simp
    then have "unat ((a - q) - (a - p)) = unat (a - q) - unat (a - p)" by (rule unat_sub)
    moreover have "(a - q) - (a - p) = p - q" by simp
    ultimately have "unat (p - q) \<le> unat (a - q)" by simp
    with k s2 show False by simp
  qed
qed

lemma separate_sym: "separate p n q k \<Longrightarrow> separate q k p n"
  by (auto simp: separate_def)

lemma in_region_word: "in_region a p (unat n) \<longleftrightarrow> a - p < n"
  by (simp add: in_region_def word_less_nat_alt)

lemma word_bytes_less: "word_bytes (p :: 'a::len word) < 2 ^ LENGTH('a)"
proof -
  have "(LENGTH('a) + 7) div 8 \<le> LENGTH('a)"
    using len_gt_0 [where 'a = 'a] by simp
  also have "LENGTH('a) < 2 ^ LENGTH('a)" by (rule less_exp)
  finally show ?thesis by (simp add: word_bytes_def)
qed

lemma word_bytes_covers: "(2::nat) ^ LENGTH('a) \<le> 256 ^ word_bytes (p :: 'a::len word)"
proof -
  have "LENGTH('a) \<le> 8 * ((LENGTH('a) + 7) div 8)" by simp
  then have "(2::nat) ^ LENGTH('a) \<le> 2 ^ (8 * ((LENGTH('a) + 7) div 8))"
    by (rule power_increasing) simp
  also have "\<dots> = 256 ^ ((LENGTH('a) + 7) div 8)" by (simp add: power_mult)
  finally show ?thesis by (simp add: word_bytes_def)
qed

lemma in_region_offset:
  fixes p :: "'a::len word"
  assumes "i < n"
  shows "in_region (p + of_nat i) p n"
proof -
  have "unat (of_nat i :: 'a word) \<le> i" by (simp add: unat_of_nat)
  with assms show ?thesis by (simp add: in_region_def)
qed

lemma load_bytes_cong:
  "(\<And>i. i < n \<Longrightarrow> m' (p + of_nat i) = m (p + of_nat i)) \<Longrightarrow> load_bytes n m' p = load_bytes n m p"
proof (induction n arbitrary: p)
  case 0
  show ?case by simp
next
  case (Suc n)
  have "m' p = m p" using Suc.prems [of 0] by simp
  moreover have "load_bytes n m' (p + 1) = load_bytes n m (p + 1)"
  proof (rule Suc.IH)
    fix i assume "i < n"
    then show "m' (p + 1 + of_nat i) = m (p + 1 + of_nat i)"
      using Suc.prems [of "Suc i"] by (simp add: add.assoc)
  qed
  ultimately show ?case by simp
qed

lemma store_bytes_outside:
  "(\<And>i. i < n \<Longrightarrow> a \<noteq> p + of_nat i) \<Longrightarrow> store_bytes n v m p a = m a"
proof (induction n arbitrary: p v)
  case 0
  show ?case by simp
next
  case (Suc n)
  have "a \<noteq> p" using Suc.prems [of 0] by simp
  moreover have "store_bytes n (v div 256) m (p + 1) a = m a"
  proof (rule Suc.IH)
    fix i assume "i < n"
    then show "a \<noteq> p + 1 + of_nat i"
      using Suc.prems [of "Suc i"] by (simp add: add.assoc)
  qed
  ultimately show ?case by simp
qed

lemma load_bytes_store_bytes:
  fixes p :: "'a::len word"
  assumes "n < 2 ^ LENGTH('a)"
  shows "load_bytes n (store_bytes n v m p) p = v mod 256 ^ n"
  using assms
proof (induction n arbitrary: p v)
  case 0
  show ?case by simp
next
  case (Suc n)
  let ?m = "store_bytes n (v div 256) m (p + 1)"
  have "load_bytes n (?m(p := of_nat (v mod 256))) (p + 1) = load_bytes n ?m (p + 1)"
  proof (rule load_bytes_cong)
    fix i assume i: "i < n"
    have "(of_nat (Suc i) :: 'a word) \<noteq> 0"
      using i Suc.prems by (intro of_nat_neq_0) simp_all
    then have "p + 1 + of_nat i \<noteq> p" by (simp add: add.assoc)
    then show "(?m(p := of_nat (v mod 256))) (p + 1 + of_nat i) = ?m (p + 1 + of_nat i)"
      by simp
  qed
  moreover have "load_bytes n ?m (p + 1) = (v div 256) mod 256 ^ n"
    using Suc.prems by (intro Suc.IH) simp
  ultimately have rest:
    "load_bytes n (?m(p := of_nat (v mod 256))) (p + 1) = (v div 256) mod 256 ^ n"
    by (simp only:)
  have low: "unat (of_nat (v mod 256) :: apr_byte_t) = v mod 256"
    by (simp add: unat_of_nat)
  have "load_bytes (Suc n) (store_bytes (Suc n) v m p) p =
          unat ((?m(p := of_nat (v mod 256))) p)
          + 256 * load_bytes n (?m(p := of_nat (v mod 256))) (p + 1)"
    by (simp only: store_bytes.simps load_bytes.simps)
  also have "\<dots> = v mod 256 + 256 * ((v div 256) mod 256 ^ n)"
    by (simp only: rest fun_upd_same low)
  also have "\<dots> = v mod 256 ^ Suc n"
    by (simp add: mod_mult2_eq)
  finally show ?case .
qed

lemma load_store_same: "load (store m p v) p = v"
proof -
  have "load_bytes (word_bytes p) (store_bytes (word_bytes p) (unat v) m p) p
          = unat v mod 256 ^ word_bytes p"
    using word_bytes_less by (rule load_bytes_store_bytes)
  moreover have "unat v < 256 ^ word_bytes p"
    using unsigned_less [of v, where 'a = nat] word_bytes_covers [of p]
    by (rule less_le_trans)
  ultimately show ?thesis by (simp add: load_def store_def)
qed

lemma load_unchanged:
  assumes "\<And>a. in_region a p (word_bytes p) \<Longrightarrow> m' a = m a"
  shows "load m' p = load m p"
proof -
  have "load_bytes (word_bytes p) m' p = load_bytes (word_bytes p) m p"
    by (rule load_bytes_cong) (simp add: assms in_region_offset)
  then show ?thesis by (simp add: load_def)
qed

lemma store_outside:
  assumes "\<not> in_region a p (word_bytes p)"
  shows "store m p v a = m a"
proof -
  have "store_bytes (word_bytes p) (unat v) m p a = m a"
  proof (rule store_bytes_outside)
    fix i assume "i < word_bytes p"
    then have "in_region (p + of_nat i) p (word_bytes p)" by (rule in_region_offset)
    with assms show "a \<noteq> p + of_nat i" by auto
  qed
  then show ?thesis by (simp add: store_def)
qed

lemma memcpy_inside: "i < n \<Longrightarrow> memcpy m dst src n (dst + i) = m (src + i)"
  by (simp add: memcpy_def)

lemma memcpy_outside: "\<not> in_region a dst (unat n) \<Longrightarrow> memcpy m dst src n a = m a"
  by (simp add: memcpy_def in_region_word)

lemma memset_inside: "i < n \<Longrightarrow> memset m dst c n (dst + i) = c"
  by (simp add: memset_def)


text \<open>A memory \<open>m'\<close> that differs from \<open>m\<close> only inside a region reads the same in every
  cell and every frame struct apart from that region.\<close>

lemma load_apart:
  assumes "\<And>a. \<not> in_region a p n \<Longrightarrow> m' a = m a"
    and "separate p n q (word_bytes q)"
  shows "load m' q = load m q"
proof (rule load_unchanged)
  fix a assume "in_region a q (word_bytes q)"
  with assms(2) have "\<not> in_region a p n"
    using separate_not_both [OF separate_sym] by blast
  then show "m' a = m a" by (rule assms(1))
qed

lemma frame_field_regions:
  fixes frame :: "'a::len word"
  shows "in_region a frame (word_bytes frame) \<Longrightarrow> in_region a frame (frame_bytes frame)"
    and "in_region a (frame + of_nat (word_bytes frame)) (word_bytes frame)
           \<Longrightarrow> in_region a frame (frame_bytes frame)"
proof -
  show "in_region a frame (word_bytes frame) \<Longrightarrow> in_region a frame (frame_bytes frame)"
    by (simp add: in_region_def frame_bytes_def)
  assume "in_region a (frame + of_nat (word_bytes frame)) (word_bytes frame)"
  then have lt: "unat (a - (frame + of_nat (word_bytes frame))) < word_bytes frame"
    by (simp add: in_region_def)
  have "a - frame = (a - (frame + of_nat (word_bytes frame))) + of_nat (word_bytes frame)"
    by simp
  then have "unat (a - frame)
               \<le> unat (a - (frame + of_nat (word_bytes frame)))
                 + unat (of_nat (word_bytes frame) :: 'a word)"
    by (metis unat_plus_simple unat_add_lem le_cases leI order_less_imp_le word_le_nat_alt
        unat_word_ariths(1) mod_less_eq_dividend)
  also have "unat (of_nat (word_bytes frame) :: 'a word) \<le> word_bytes frame"
    by (simp add: unat_of_nat)
  finally show "in_region a frame (frame_bytes frame)"
    using lt by (simp add: in_region_def frame_bytes_def)
qed

lemma frame_at_apart:
  assumes "\<And>a. \<not> in_region a p n \<Longrightarrow> m' a = m a"
    and "separate p n frame (frame_bytes frame)"
  shows "frame_at m' frame = frame_at m frame"
proof -
  have out: "m' a = m a" if "in_region a frame (frame_bytes frame)" for a
  proof -
    from assms(2) that have "\<not> in_region a p n"
      using separate_not_both [OF separate_sym] by blast
    then show ?thesis by (rule assms(1))
  qed
  have "load m' frame = load m frame"
    by (rule load_unchanged) (simp add: out frame_field_regions(1))
  moreover have "load m' (frame + of_nat (word_bytes frame))
                   = load m (frame + of_nat (word_bytes frame))"
  proof (rule load_unchanged)
    fix a
    assume "in_region a (frame + of_nat (word_bytes frame))
              (word_bytes (frame + of_nat (word_bytes frame)))"
    then have "in_region a (frame + of_nat (word_bytes frame)) (word_bytes frame)"
      by (simp add: word_bytes_def)
    then show "m' a = m a" by (intro out frame_field_regions(2))
  qed
  ultimately show ?thesis by (simp add: frame_at_def)
qed

section \<open>Auxiliary facts: the codec store\<close>

lemma vtable_of_w0: "vtable_of vts0 w0 (Ptr 0) = Some bare_vtable"
  by (simp add: vtable_of_def w0_def codec0_def vts0_def)

lemma vtable_of_w0_stateful: "vtable_of vts0 w0 (Ptr 1) = Some stateful_vtable"
  by (simp add: vtable_of_def w0_def codec1_def vts0_def)

lemma vtable_of_layout: "vtable_of vts0 (layout fb F cur rem) (Ptr 0) = Some bare_vtable"
  by (simp add: vtable_of_def layout_def w0_def codec0_def vts0_def)

lemma codec_update_valid:
  assumes "codec_at w p = Some c"
  shows "\<exists>w'. codec_update p g w = Some w'
           \<and> codec_at w' p = Some (g c)
           \<and> (\<forall>q. q \<noteq> p \<longrightarrow> codec_at w' q = codec_at w q)
           \<and> mem w' = mem w"
proof (cases p)
  case NULL
  with assms show ?thesis by simp
next
  case (Ptr n)
  with assms have n: "n < length (codecs w)" and c: "codecs w ! n = Some c"
    by (simp_all split: if_splits)
  let ?w = "w\<lparr>codecs := (codecs w)[n := Some (g c)]\<rparr>"
  have "codec_update p g w = Some ?w" using Ptr n c by simp
  moreover have "codec_at ?w p = Some (g c)" using Ptr n by simp
  moreover have "\<forall>q. q \<noteq> p \<longrightarrow> codec_at ?w q = codec_at w q"
  proof (intro allI impI)
    fix q assume "q \<noteq> p"
    with Ptr show "codec_at ?w q = codec_at w q" by (cases q) simp_all
  qed
  moreover have "mem ?w = mem w" by simp
  ultimately show ?thesis by blast
qed

lemma codec_at_append_old:
  "codec_at w p = Some c \<Longrightarrow> codec_at (w\<lparr>codecs := codecs w @ [d]\<rparr>) p = Some c"
  by (cases p) (auto simp: nth_append split: if_splits)

lemma codec_at_append_new:
  "codec_at (w\<lparr>codecs := codecs w @ [d]\<rparr>) (Ptr (length (codecs w))) = d"
  by simp

lemma codec_at_valid_neq_fresh:
  "codec_at w p = Some c \<Longrightarrow> Ptr (length (codecs w)) \<noteq> p"
  by (cases p) (auto split: if_splits)

lemma write_mem_simps:
  "mem (write_mem p n m' w) = m'"
  "codec_addr (write_mem p n m' w) = codec_addr w"
  "length (codecs (write_mem p n m' w)) = length (codecs w)"
  by (simp_all add: write_mem_def)

lemma codec_at_write_mem:
  "codec_at (write_mem p n m' w) (Ptr i) =
     (if separate p n (codec_addr w i) (codec_bytes p) then codec_at w (Ptr i) else None)"
  by (simp add: write_mem_def)

section \<open>Auxiliary facts: one call of the default dissector\<close>

lemma default_dissect_fails:
  assumes "vtable_of vts w codec = Some vt" and "dissect vt = None"
    and "size_f (frame_at (mem w) frame) = 0
         \<or> load (mem w) size_p < size_f (frame_at (mem w) frame)"
  shows "mpf_codec_dissect vts codec buffer_p size_p frame w = Some (False, w)"
  using assms by (auto simp: mpf_codec_dissect_def not_le)

lemma default_dissect_effect:
  fixes w :: "'a::len world"
  assumes vt: "vtable_of vts w codec = Some vt" and d: "dissect vt = None"
    and nz: "size_f (frame_at (mem w) frame) \<noteq> 0"
    and le: "size_f (frame_at (mem w) frame) \<le> load (mem w) size_p"
    and apart: "cells_apart (mem w) buffer_p size_p frame"
  shows "\<exists>w'. mpf_codec_dissect vts codec buffer_p size_p frame w = Some (True, w')
           \<and> load (mem w') buffer_p = load (mem w) buffer_p + size_f (frame_at (mem w) frame)
           \<and> load (mem w') size_p = load (mem w) size_p - size_f (frame_at (mem w) frame)
           \<and> frame_at (mem w') frame = frame_at (mem w) frame
           \<and> (\<forall>i. i < size_f (frame_at (mem w) frame) \<longrightarrow>
                 mem w' (buffer (frame_at (mem w) frame) + i) = mem w (load (mem w) buffer_p + i))
           \<and> (\<forall>a. \<not> in_region a (buffer (frame_at (mem w) frame))
                        (unat (size_f (frame_at (mem w) frame)))
                  \<and> \<not> in_region a buffer_p (word_bytes buffer_p)
                  \<and> \<not> in_region a size_p (word_bytes size_p) \<longrightarrow>
                 mem w' a = mem w a)
           \<and> codec_addr w' = codec_addr w
           \<and> (\<forall>n. codec_apart w n buffer_p size_p frame \<longrightarrow>
                 codec_at w' (Ptr n) = codec_at w (Ptr n))"
proof -
  let ?m = "mem w"
  let ?fb = "buffer (frame_at ?m frame)"
  let ?F = "size_f (frame_at ?m frame)"
  let ?src = "load ?m buffer_p"
  let ?s = "load ?m size_p"
  let ?m1 = "memcpy ?m ?fb ?src ?F"
  let ?m2 = "store ?m1 buffer_p (?src + ?F)"
  let ?m3 = "store ?m2 size_p (?s - ?F)"
  let ?w1 = "write_mem ?fb (unat ?F) ?m1 w"
  let ?w2 = "write_mem buffer_p (word_bytes buffer_p) ?m2 ?w1"
  let ?w3 = "write_mem size_p (word_bytes size_p) ?m3 ?w2"
  from apart have
    sep1: "separate ?fb (unat ?F) frame (frame_bytes frame)" and
    sep2: "separate ?fb (unat ?F) buffer_p (word_bytes buffer_p)" and
    sep3: "separate ?fb (unat ?F) size_p (word_bytes size_p)" and
    sep4: "separate buffer_p (word_bytes buffer_p) size_p (word_bytes size_p)" and
    sep5: "separate buffer_p (word_bytes buffer_p) frame (frame_bytes frame)" and
    sep6: "separate size_p (word_bytes size_p) frame (frame_bytes frame)"
    by (simp_all add: cells_apart_def)
  have A1: "\<And>a. \<not> in_region a ?fb (unat ?F) \<Longrightarrow> ?m1 a = ?m a"
    by (rule memcpy_outside)
  have A2: "\<And>a. \<not> in_region a buffer_p (word_bytes buffer_p) \<Longrightarrow> ?m2 a = ?m1 a"
    by (rule store_outside)
  have A3: "\<And>a. \<not> in_region a size_p (word_bytes size_p) \<Longrightarrow> ?m3 a = ?m2 a"
    by (rule store_outside)
  have f1: "frame_at ?m1 frame = frame_at ?m frame" using A1 sep1 by (rule frame_at_apart)
  have b1: "load ?m1 buffer_p = ?src" using A1 sep2 by (rule load_apart)
  have s1: "load ?m1 size_p = ?s" using A1 sep3 by (rule load_apart)
  have f2: "frame_at ?m2 frame = frame_at ?m1 frame" using A2 sep5 by (rule frame_at_apart)
  have b2: "load ?m2 buffer_p = ?src + ?F" by (rule load_store_same)
  have s2: "load ?m2 size_p = load ?m1 size_p" using A2 sep4 by (rule load_apart)
  have f3: "frame_at ?m3 frame = frame_at ?m2 frame" using A3 sep6 by (rule frame_at_apart)
  have b3: "load ?m3 buffer_p = load ?m2 buffer_p"
    using A3 separate_sym [OF sep4] by (rule load_apart)
  have s3: "load ?m3 size_p = ?s - ?F" by (rule load_store_same)
  have r: "mpf_codec_dissect vts codec buffer_p size_p frame w = Some (True, ?w3)"
    using vt d nz le
    by (simp add: mpf_codec_dissect_def Let_def write_mem_simps b1 f1 s1 s2 f2)
  have m3: "mem ?w3 = ?m3" by (simp add: write_mem_simps)
  have c1: "load (mem ?w3) buffer_p = ?src + ?F" by (simp only: m3 b3 b2)
  have c2: "load (mem ?w3) size_p = ?s - ?F" by (simp only: m3 s3)
  have c3: "frame_at (mem ?w3) frame = frame_at ?m frame" by (simp only: m3 f3 f2 f1)
  have c4: "\<forall>i. i < ?F \<longrightarrow> mem ?w3 (?fb + i) = ?m (?src + i)"
  proof (intro allI impI)
    fix i assume i: "i < ?F"
    then have inp: "in_region (?fb + i) ?fb (unat ?F)" by (simp add: in_region_word)
    have "\<not> in_region (?fb + i) size_p (word_bytes size_p)"
      using sep3 inp by (rule separate_not_both)
    then have "?m3 (?fb + i) = ?m2 (?fb + i)" by (rule A3)
    moreover have "\<not> in_region (?fb + i) buffer_p (word_bytes buffer_p)"
      using sep2 inp by (rule separate_not_both)
    then have "?m2 (?fb + i) = ?m1 (?fb + i)" by (rule A2)
    moreover have "?m1 (?fb + i) = ?m (?src + i)" using i by (rule memcpy_inside)
    ultimately show "mem ?w3 (?fb + i) = ?m (?src + i)" by (simp only: m3)
  qed
  have c5: "\<forall>a. \<not> in_region a ?fb (unat ?F)
                \<and> \<not> in_region a buffer_p (word_bytes buffer_p)
                \<and> \<not> in_region a size_p (word_bytes size_p) \<longrightarrow> mem ?w3 a = ?m a"
  proof (intro allI impI, elim conjE)
    fix a
    assume o1: "\<not> in_region a ?fb (unat ?F)"
      and o2: "\<not> in_region a buffer_p (word_bytes buffer_p)"
      and o3: "\<not> in_region a size_p (word_bytes size_p)"
    have "?m3 a = ?m2 a" using o3 by (rule A3)
    moreover have "?m2 a = ?m1 a" using o2 by (rule A2)
    moreover have "?m1 a = ?m a" using o1 by (rule A1)
    ultimately show "mem ?w3 a = ?m a" by (simp only: m3)
  qed
  have c6: "codec_addr ?w3 = codec_addr w" by (simp add: write_mem_simps)
  have c7: "\<forall>n. codec_apart w n buffer_p size_p frame \<longrightarrow>
                 codec_at ?w3 (Ptr n) = codec_at w (Ptr n)"
    by (simp add: codec_apart_def codec_at_write_mem write_mem_simps codec_bytes_def
        word_bytes_def del: codec_at.simps)
  from r c1 c2 c3 c4 c5 c6 c7 show ?thesis by blast
qed


section \<open>Auxiliary facts: the example states\<close>

lemma load_store_other:
  assumes "separate p (word_bytes p) q (word_bytes q)"
  shows "load (store m p v) q = load m q"
  using store_outside assms by (rule load_apart)

lemma load_bytes_shift:
  "(\<And>i. i < n \<Longrightarrow> m' (p + of_nat i) = m (q + of_nat i))
     \<Longrightarrow> load_bytes n m' p = load_bytes n m q"
proof (induction n arbitrary: p q)
  case 0
  show ?case by simp
next
  case (Suc n)
  have "m' p = m q" using Suc.prems [of 0] by simp
  moreover have "load_bytes n m' (p + 1) = load_bytes n m (q + 1)"
  proof (rule Suc.IH)
    fix i assume "i < n"
    then show "m' (p + 1 + of_nat i) = m (q + 1 + of_nat i)"
      using Suc.prems [of "Suc i"] by (simp add: add.assoc)
  qed
  ultimately show ?case by simp
qed


text \<open>A cell that lies inside the destination of a copy holds, afterwards, what the
  source held at the same offset; inside a region filled with zeros it holds zero.\<close>

lemma load_memcpy_inside:
  fixes q :: "'a::len word"
  assumes "\<And>i. i < word_bytes q \<Longrightarrow> (q - dst) + of_nat i < n"
  shows "load (memcpy m dst src n) q = load m (src + (q - dst))"
proof -
  have "load_bytes (word_bytes q) (memcpy m dst src n) q
          = load_bytes (word_bytes q) m (src + (q - dst))"
  proof (rule load_bytes_shift)
    fix i assume "i < word_bytes q"
    then have lt: "(q - dst) + of_nat i < n" by (rule assms)
    have e: "q + of_nat i - dst = (q - dst) + of_nat i" by simp
    have "memcpy m dst src n (q + of_nat i) =
            (if q + of_nat i - dst < n then m (src + (q + of_nat i - dst))
             else m (q + of_nat i))"
      by (simp only: memcpy_def)
    also have "\<dots> = m (src + ((q - dst) + of_nat i))"
      unfolding e using lt by (simp only: if_True)
    finally show "memcpy m dst src n (q + of_nat i) = m (src + (q - dst) + of_nat i)"
      by (simp only: add.assoc)
  qed
  then show ?thesis by (simp add: load_def word_bytes_def)
qed


lemma word_bytes_64: "word_bytes (p :: 64 word) = 8"
  by (simp add: word_bytes_def)

lemma offset_less_64:
  fixes k n :: "64 word"
  assumes "i < 8" and "unat k + 8 \<le> unat n"
  shows "k + of_nat i < n"
proof -
  have "unat (of_nat i :: 64 word) = i" using assms(1) by (simp add: unat_of_nat)
  moreover have "unat (k + of_nat i) \<le> unat k + unat (of_nat i :: 64 word)"
    by (simp add: unat_word_ariths)
  ultimately show ?thesis using assms by (simp add: word_less_nat_alt)
qed

lemma load_64:
  "load m (p :: 64 word) =
     of_nat (unat (m p) + 256 * (unat (m (p + 1)) + 256 * (unat (m (p + 2))
       + 256 * (unat (m (p + 3)) + 256 * (unat (m (p + 4)) + 256 * (unat (m (p + 5))
       + 256 * (unat (m (p + 6)) + 256 * unat (m (p + 7)))))))))"
proof -
  have "word_bytes p = Suc (Suc (Suc (Suc (Suc (Suc (Suc (Suc 0)))))))"
    by (simp add: word_bytes_def)
  then show ?thesis by (simp add: load_def add.assoc)
qed

lemma packet_words:
  "load (\<lambda>a. ucast a) (100 :: 64 word) = 0x6b6a696867666564"
  "load (\<lambda>a. ucast a) (108 :: 64 word) = 0x737271706f6e6d6c"
  by (simp_all add: load_64)

lemma layout_cells:
  "load (mem (layout fb F cur rem)) 3008 = rem"
  "load (mem (layout fb F cur rem)) 3000 = cur"
  "frame_at (mem (layout fb F cur rem)) 2000 = \<lparr>buffer = fb, size_f = F\<rparr>"
proof -
  have s: "separate (3008 :: 64 word) 8 3000 8" "separate (3008 :: 64 word) 8 2008 8"
    "separate (3008 :: 64 word) 8 2000 8" "separate (3000 :: 64 word) 8 2008 8"
    "separate (3000 :: 64 word) 8 2000 8" "separate (2008 :: 64 word) 8 2000 8"
    by (simp_all add: separate_def)
  show "load (mem (layout fb F cur rem)) 3008 = rem"
    by (simp add: layout_def load_store_same)
  show "load (mem (layout fb F cur rem)) 3000 = cur"
    using s by (simp add: layout_def load_store_other load_store_same word_bytes_64)
  show "frame_at (mem (layout fb F cur rem)) 2000 = \<lparr>buffer = fb, size_f = F\<rparr>"
    using s
    by (simp add: layout_def frame_at_def load_store_other load_store_same word_bytes_64)
qed

lemma in_region_shift:
  fixes p d :: "'a::len word"
  assumes "in_region a (p + d) n"
  shows "in_region a p (unat d + n)"
proof -
  have "a - p = (a - (p + d)) + d" by simp
  then have "unat (a - p) = (unat (a - (p + d)) + unat d) mod 2 ^ LENGTH('a)"
    by (simp only: unat_word_ariths)
  also have "\<dots> \<le> unat (a - (p + d)) + unat d" by (rule mod_less_eq_dividend)
  finally show ?thesis using assms by (simp add: in_region_def)
qed

lemma layout_outside:
  assumes "\<not> in_region a 2000 16" and "\<not> in_region a 3000 16"
  shows "mem (layout fb F cur rem) a = ucast a"
proof -
  have "\<not> in_region a 2000 8" "\<not> in_region a 3000 8"
    using assms by (simp_all add: in_region_def)
  moreover have "\<not> in_region a 2008 8"
    using assms(1) in_region_shift [of a 2000 8 8] by auto
  moreover have "\<not> in_region a 3008 8"
    using assms(2) in_region_shift [of a 3000 8 8] by auto
  ultimately show ?thesis
    by (simp add: layout_def store_outside word_bytes_64 w0_def)
qed

lemma layout_codecs:
  "codecs (layout fb F cur rem) = [Some codec0, Some codec1]"
  "codec_addr (layout fb F cur rem) = (\<lambda>n. 65536 + 48 * of_nat n)"
  by (simp_all add: layout_def w0_def)

lemma layout_load_packet:
  assumes "separate q 8 2000 16" and "separate q 8 3000 16"
  shows "load (mem (layout fb F cur rem)) q = load (\<lambda>a. ucast a) q"
proof (rule load_unchanged)
  fix a assume "in_region a q (word_bytes q)"
  then have "in_region a q 8" by (simp add: word_bytes_64)
  then have "\<not> in_region a 2000 16" "\<not> in_region a 3000 16"
    using assms separate_not_both by blast+
  then show "mem (layout fb F cur rem) a = ucast a" by (rule layout_outside)
qed

lemma cells_apart_layout:
  assumes "unat F \<le> 1000"
  shows "cells_apart (mem (layout 1000 F cur rem)) 3000 3008 2000"
  using assms
  by (simp add: cells_apart_def layout_cells separate_def word_bytes_64 frame_bytes_def)

lemma codec_apart_layout:
  assumes "unat F \<le> 1000"
  shows "codec_apart (layout 1000 F cur rem) 0 3000 3008 2000"
  using assms
  by (simp add: codec_apart_def layout_cells layout_codecs separate_def word_bytes_64
      codec_bytes_def)

text \<open>The call with the payload extent on the cell \<^verbatim>\<open>*size\<close>.\<close>

lemma run_payload_on_size:
  "\<exists>w'. mpf_codec_dissect vts0 (Ptr 0) 3000 3008 2000 w_payload_on_size = Some (True, w')
     \<and> load (mem w') 3000 = 108
     \<and> load (mem w') 3008 = 0x6b6a69686766655c"
proof -
  let ?m = "mem (layout 3008 8 100 50)"
  let ?m1 = "memcpy ?m 3008 100 8"
  let ?m2 = "store ?m1 3000 108"
  let ?m3 = "store ?m2 3008 0x6b6a69686766655c"
  have sep: "separate (3008 :: 64 word) 8 3000 8" "separate (3008 :: 64 word) 8 2000 16"
    "separate (3000 :: 64 word) 8 3008 8" "separate (3000 :: 64 word) 8 2000 16"
    "separate (100 :: 64 word) 8 2000 16" "separate (100 :: 64 word) 8 3000 16"
    by (simp_all add: separate_def)
  have "load ?m1 3000 = load ?m 3000"
    by (rule load_apart [where p = 3008 and n = 8])
      (simp_all add: memcpy_outside word_bytes_64 sep)
  then have b1: "load ?m1 3000 = 100" by (simp add: layout_cells)
  have "frame_at ?m1 2000 = frame_at ?m 2000"
    by (rule frame_at_apart [where p = 3008 and n = 8])
      (simp_all add: memcpy_outside word_bytes_64 frame_bytes_def sep)
  then have f1: "frame_at ?m1 2000 = \<lparr>buffer = 3008, size_f = 8\<rparr>"
    by (simp add: layout_cells)
  have s1: "load ?m1 3008 = 0x6b6a696867666564"
  proof -
    have "load ?m1 3008 = load ?m (100 + (3008 - 3008))"
      by (rule load_memcpy_inside, rule offset_less_64) (simp_all add: word_bytes_64)
    also have "\<dots> = load (\<lambda>a. ucast a) 100"
      using sep(5,6) by (simp add: layout_load_packet)
    finally show ?thesis by (simp add: packet_words)
  qed
  have s2: "load ?m2 3008 = 0x6b6a696867666564"
    using sep(3) by (simp add: load_store_other word_bytes_64 s1)
  have "frame_at ?m2 2000 = frame_at ?m1 2000"
    by (rule frame_at_apart [where p = 3000 and n = 8])
      (simp_all add: store_outside word_bytes_64 frame_bytes_def sep)
  then have f2: "frame_at ?m2 2000 = \<lparr>buffer = 3008, size_f = 8\<rparr>"
    by (simp only: f1)
  have b3: "load ?m3 3000 = 108"
    using sep(1) by (simp add: load_store_other load_store_same word_bytes_64)
  have s3: "load ?m3 3008 = 0x6b6a69686766655c" by (rule load_store_same)
  have "mpf_codec_dissect vts0 (Ptr 0) 3000 3008 2000 w_payload_on_size =
          Some (True, write_mem 3008 8 ?m3 (write_mem 3000 8 ?m2
                        (write_mem 3008 8 ?m1 (layout 3008 8 100 50))))"
    by (simp add: mpf_codec_dissect_def w_payload_on_size_def vtable_of_layout bare_vtable_def
        layout_cells Let_def write_mem_simps b1 f1 s2 f2 word_bytes_64)
  with b3 s3 show ?thesis by (simp add: write_mem_simps)
qed

text \<open>The call with the payload extent on the frame struct.\<close>

lemma run_payload_on_frame:
  "\<exists>w'. mpf_codec_dissect vts0 (Ptr 0) 3000 3008 2000 w_payload_on_frame = Some (True, w')
     \<and> load (mem w') 3000 = 100 + 0x737271706f6e6d6c
     \<and> load (mem w') 3008 = 50 - 0x737271706f6e6d6c
     \<and> frame_at (mem w') 2000 = \<lparr>buffer = 0x6b6a696867666564, size_f = 0x737271706f6e6d6c\<rparr>"
proof -
  let ?m = "mem (layout 2000 16 100 50)"
  let ?m1 = "memcpy ?m 2000 100 16"
  let ?m2 = "store ?m1 3000 8318836189426511312"
  let ?m3 = "store ?m2 3008 (- 8318836189426511162)"
  let ?fr = "\<lparr>buffer = 0x6b6a696867666564, size_f = 0x737271706f6e6d6c\<rparr> :: 64 mpf_codec_frame_t"
  have sep: "separate (2000 :: 64 word) 16 3000 8" "separate (2000 :: 64 word) 16 3008 8"
    "separate (3000 :: 64 word) 8 3008 8" "separate (3000 :: 64 word) 8 2000 16"
    "separate (3008 :: 64 word) 8 3000 8" "separate (3008 :: 64 word) 8 2000 16"
    "separate (100 :: 64 word) 8 2000 16" "separate (100 :: 64 word) 8 3000 16"
    "separate (108 :: 64 word) 8 2000 16" "separate (108 :: 64 word) 8 3000 16"
    by (simp_all add: separate_def)
  have "load ?m1 3000 = load ?m 3000"
    by (rule load_apart [where p = 2000 and n = 16])
      (simp_all add: memcpy_outside word_bytes_64 sep)
  then have b1: "load ?m1 3000 = 100" by (simp add: layout_cells)
  have "load ?m1 3008 = load ?m 3008"
    by (rule load_apart [where p = 2000 and n = 16])
      (simp_all add: memcpy_outside word_bytes_64 sep)
  then have s1: "load ?m1 3008 = 50" by (simp add: layout_cells)
  have fb1: "load ?m1 2000 = 0x6b6a696867666564"
  proof -
    have "load ?m1 2000 = load ?m (100 + (2000 - 2000))"
      by (rule load_memcpy_inside, rule offset_less_64) (simp_all add: word_bytes_64)
    also have "\<dots> = load (\<lambda>a. ucast a) 100"
      using sep(7,8) by (simp add: layout_load_packet)
    finally show ?thesis by (simp add: packet_words)
  qed
  have fs1: "load ?m1 2008 = 0x737271706f6e6d6c"
  proof -
    have "load ?m1 2008 = load ?m (100 + (2008 - 2000))"
      by (rule load_memcpy_inside, rule offset_less_64) (simp_all add: word_bytes_64)
    also have "\<dots> = load (\<lambda>a. ucast a) 108"
      using sep(9,10) by (simp add: layout_load_packet)
    finally show ?thesis by (simp add: packet_words)
  qed
  have f1: "frame_at ?m1 2000 = ?fr"
    by (simp add: frame_at_def word_bytes_64 fb1 fs1)
  have s2: "load ?m2 3008 = 50"
    using sep(3) by (simp add: load_store_other word_bytes_64 s1)
  have "frame_at ?m2 2000 = frame_at ?m1 2000"
    by (rule frame_at_apart [where p = 3000 and n = 8])
      (simp_all add: store_outside word_bytes_64 frame_bytes_def sep)
  then have f2: "frame_at ?m2 2000 = ?fr" by (simp only: f1)
  have b3: "load ?m3 3000 = 8318836189426511312"
    using sep(5) by (simp add: load_store_other load_store_same word_bytes_64)
  have s3: "load ?m3 3008 = - 8318836189426511162" by (rule load_store_same)
  have "frame_at ?m3 2000 = frame_at ?m2 2000"
    by (rule frame_at_apart [where p = 3008 and n = 8])
      (simp_all add: store_outside word_bytes_64 frame_bytes_def sep)
  then have f3: "frame_at ?m3 2000 = ?fr" by (simp only: f2)
  have "mpf_codec_dissect vts0 (Ptr 0) 3000 3008 2000 w_payload_on_frame =
          Some (True, write_mem 3008 8 ?m3 (write_mem 3000 8 ?m2
                        (write_mem 2000 16 ?m1 (layout 2000 16 100 50))))"
    by (simp add: mpf_codec_dissect_def w_payload_on_frame_def vtable_of_layout bare_vtable_def
        layout_cells Let_def write_mem_simps b1 f1 s2 f2 word_bytes_64)
  with b3 s3 f3 show ?thesis by (simp add: write_mem_simps)
qed

section \<open>Auxiliary facts: counting frames\<close>

lemma frames_fit_none:
  fixes sz F :: "'a::len word"
  assumes "sz < F"
  shows "unat sz div unat F = 0"
  using assms by (simp add: word_less_nat_alt)

lemma frames_fit_step:
  fixes sz F :: "'a::len word"
  assumes "F \<le> sz" and "F \<noteq> 0"
  shows "unat sz div unat F = Suc (unat (sz - F) div unat F)"
proof -
  have le: "unat F \<le> unat sz" using assms(1) by (simp add: word_le_nat_alt)
  have pos: "0 < unat F" using assms(2) by (simp add: unat_gt_0)
  have "unat (sz - F) = unat sz - unat F" using assms(1) by (rule unat_sub)
  moreover have "unat sz div unat F = Suc ((unat sz - unat F) div unat F)"
    using le pos by (simp add: le_div_geq)
  ultimately show ?thesis by simp
qed

lemma consumed_unat:
  fixes sz F :: "'a::len word"
  assumes "m \<le> unat sz div unat F"
  shows "unat (of_nat m * F) = m * unat F" and "of_nat m * F \<le> sz"
proof -
  have "m * unat F \<le> (unat sz div unat F) * unat F" using assms by simp
  also have "\<dots> \<le> unat sz" by simp
  finally have b: "m * unat F \<le> unat sz" .
  have "of_nat m * F = (of_nat (m * unat F) :: 'a word)" by simp
  moreover have "unat (of_nat (m * unat F) :: 'a word) = m * unat F"
    using b by (metis le_unat_uoi)
  ultimately show u: "unat (of_nat m * F) = m * unat F" by simp
  show "of_nat m * F \<le> sz" using b u by (simp add: word_le_nat_alt)
qed

lemma remainder_word:
  fixes sz F :: "'a::len word"
  shows "sz - of_nat (unat sz div unat F) * F = of_nat (unat sz mod unat F)"
proof -
  let ?k = "unat sz div unat F"
  have u: "unat (of_nat ?k * F) = ?k * unat F"
    using consumed_unat(1) [of ?k sz F] by simp
  have le: "of_nat ?k * F \<le> sz"
    using consumed_unat(2) [of ?k sz F] by simp
  have "unat (sz - of_nat ?k * F) = unat sz - unat (of_nat ?k * F)"
    using le by (rule unat_sub)
  also have "\<dots> = unat sz mod unat F"
    unfolding u by (simp add: minus_div_mult_eq_mod)
  finally have "of_nat (unat (sz - of_nat ?k * F)) = (of_nat (unat sz mod unat F) :: 'a word)"
    by simp
  then show ?thesis by simp
qed

lemma cursor_in_bounds:
  fixes buf sz F :: "'a::len word"
  assumes "m \<le> unat sz div unat F"
  shows "unat (buf + of_nat m * F - buf) + unat (sz - of_nat m * F) = unat sz"
proof -
  have u: "unat (of_nat m * F) = m * unat F" and le: "of_nat m * F \<le> sz"
    using assms by (rule consumed_unat)+
  have "unat (sz - of_nat m * F) = unat sz - unat (of_nat m * F)"
    using le by (rule unat_sub)
  moreover have "unat (of_nat m * F) \<le> unat sz"
    using le by (simp add: word_le_nat_alt)
  ultimately show ?thesis by simp
qed

section \<open>Auxiliary facts: repeated calls\<close>

lemma vtable_of_cong:
  "codec_at w' p = codec_at w p \<Longrightarrow> vtable_of vts w' p = vtable_of vts w p"
  by (simp add: vtable_of_def)

lemma cells_apart_cong:
  "frame_at m' frame = frame_at m frame
     \<Longrightarrow> cells_apart m' buffer_p size_p frame = cells_apart m buffer_p size_p frame"
  by (simp add: cells_apart_def)

lemma codec_apart_cong:
  "frame_at (mem w') frame = frame_at (mem w) frame \<Longrightarrow> codec_addr w' = codec_addr w
     \<Longrightarrow> codec_apart w' n buffer_p size_p frame = codec_apart w n buffer_p size_p frame"
  by (simp add: codec_apart_def)

lemma dissect_calls_default:
  fixes w :: "'a::len world"
  assumes d: "dissect vt = None" and nz: "size_f fr \<noteq> 0"
  shows "vtable_of vts w (Ptr c) = Some vt \<Longrightarrow> frame_at (mem w) frame = fr
         \<Longrightarrow> cells_apart (mem w) buffer_p size_p frame
         \<Longrightarrow> codec_apart w c buffer_p size_p frame
         \<Longrightarrow> load (mem w) buffer_p = buf \<Longrightarrow> load (mem w) size_p = sz
         \<Longrightarrow> \<exists>w'. dissect_calls vts (Ptr c) n buffer_p size_p frame w =
                    Some (map (\<lambda>i. (i < unat sz div unat (size_f fr),
                                    buf + of_nat (min (Suc i) (unat sz div unat (size_f fr))) * size_f fr,
                                    sz - of_nat (min (Suc i) (unat sz div unat (size_f fr))) * size_f fr))
                            [0..<n],
                          w')
                \<and> frame_at (mem w') frame = fr"
proof (induction n arbitrary: w buf sz)
  case 0
  then show ?case by simp
next
  case (Suc n)
  let ?F = "size_f fr"
  let ?k = "unat sz div unat ?F"
  note vt = Suc.prems(1) and fr = Suc.prems(2) and ca = Suc.prems(3) and co = Suc.prems(4)
    and lb = Suc.prems(5) and ls = Suc.prems(6)
  show ?case
  proof (cases "?F \<le> sz")
    case True
    from default_dissect_effect [OF vt d, of frame size_p buffer_p] nz True ca fr ls
    obtain w1 where
      step: "mpf_codec_dissect vts (Ptr c) buffer_p size_p frame w = Some (True, w1)" and
      b1: "load (mem w1) buffer_p = load (mem w) buffer_p + size_f (frame_at (mem w) frame)" and
      s1: "load (mem w1) size_p = load (mem w) size_p - size_f (frame_at (mem w) frame)" and
      f1: "frame_at (mem w1) frame = frame_at (mem w) frame" and
      a1: "codec_addr w1 = codec_addr w" and
      c1: "\<forall>n. codec_apart w n buffer_p size_p frame \<longrightarrow>
                 codec_at w1 (Ptr n) = codec_at w (Ptr n)"
      by auto
    have b1': "load (mem w1) buffer_p = buf + ?F" using b1 fr lb by simp
    have s1': "load (mem w1) size_p = sz - ?F" using s1 fr ls by simp
    have f1': "frame_at (mem w1) frame = fr" using f1 fr by simp
    have "codec_at w1 (Ptr c) = codec_at w (Ptr c)" using c1 co by blast
    then have "vtable_of vts w1 (Ptr c) = vtable_of vts w (Ptr c)" by (rule vtable_of_cong)
    then have vt1: "vtable_of vts w1 (Ptr c) = Some vt" by (simp only: vt)
    have ca1: "cells_apart (mem w1) buffer_p size_p frame"
      using ca cells_apart_cong [OF f1] by simp
    have co1: "codec_apart w1 c buffer_p size_p frame"
      using co codec_apart_cong [OF f1 a1] by simp
    have k: "?k = Suc (unat (sz - ?F) div unat ?F)"
      using True nz by (rule frames_fit_step)
    from Suc.IH [OF vt1 f1' ca1 co1 b1' s1'] obtain w' where
      rest: "dissect_calls vts (Ptr c) n buffer_p size_p frame w1 =
               Some (map (\<lambda>i. (i < unat (sz - ?F) div unat ?F,
                               buf + ?F + of_nat (min (Suc i) (unat (sz - ?F) div unat ?F)) * ?F,
                               sz - ?F - of_nat (min (Suc i) (unat (sz - ?F) div unat ?F)) * ?F))
                       [0..<n],
                     w')" and
      fin: "frame_at (mem w') frame = fr"
      by blast
    have "map (\<lambda>i. (i < ?k, buf + of_nat (min (Suc i) ?k) * ?F, sz - of_nat (min (Suc i) ?k) * ?F))
            [0..<Suc n] =
          (True, buf + ?F, sz - ?F) #
          map (\<lambda>i. (i < unat (sz - ?F) div unat ?F,
                     buf + ?F + of_nat (min (Suc i) (unat (sz - ?F) div unat ?F)) * ?F,
                     sz - ?F - of_nat (min (Suc i) (unat (sz - ?F) div unat ?F)) * ?F))
            [0..<n]"
      unfolding k
      by (simp add: upt_conv_Cons map_Suc_upt [symmetric] algebra_simps del: upt_Suc)
    with step rest fin b1' s1' show ?thesis by simp
  next
    case False
    then have lt: "load (mem w) size_p < size_f (frame_at (mem w) frame)"
      using fr ls by simp
    have step: "mpf_codec_dissect vts (Ptr c) buffer_p size_p frame w = Some (False, w)"
      using vt d lt by (intro default_dissect_fails) simp_all
    have k: "?k = 0" using False by (intro frames_fit_none) simp
    from Suc.IH [OF vt fr ca co lb ls] obtain w' where
      rest: "dissect_calls vts (Ptr c) n buffer_p size_p frame w =
               Some (map (\<lambda>i. (i < ?k, buf + of_nat (min (Suc i) ?k) * ?F,
                               sz - of_nat (min (Suc i) ?k) * ?F)) [0..<n],
                     w')" and
      fin: "frame_at (mem w') frame = fr"
      by blast
    have "map (\<lambda>i. (i < ?k, buf + of_nat (min (Suc i) ?k) * ?F, sz - of_nat (min (Suc i) ?k) * ?F))
            [0..<Suc n] =
          (False, buf, sz) #
          map (\<lambda>i. (i < ?k, buf + of_nat (min (Suc i) ?k) * ?F,
                     sz - of_nat (min (Suc i) ?k) * ?F)) [0..<n]"
      unfolding k
      by (simp add: upt_conv_Cons map_Suc_upt [symmetric] del: upt_Suc)
    with step rest fin lb ls show ?thesis by simp
  qed
qed


text \<open>The scenario of 50 bytes and frames of 20: the three calls one by one.\<close>

lemma scenario_50_20:
  "\<exists>w1 w2.
     mpf_codec_dissect vts0 (Ptr 0) 3000 3008 2000 (layout 1000 20 100 50) = Some (True, w1)
   \<and> load (mem w1) 3000 = 120 \<and> load (mem w1) 3008 = 30
   \<and> mem w1 1000 = 100 \<and> mem w1 1019 = 119
   \<and> mpf_codec_dissect vts0 (Ptr 0) 3000 3008 2000 w1 = Some (True, w2)
   \<and> load (mem w2) 3000 = 140 \<and> load (mem w2) 3008 = 10
   \<and> mem w2 1000 = 120 \<and> mem w2 1019 = 139
   \<and> mpf_codec_dissect vts0 (Ptr 0) 3000 3008 2000 w2 = Some (False, w2)"
proof -
  let ?w = "layout 1000 20 100 50"
  let ?fr = "\<lparr>buffer = 1000, size_f = 20\<rparr> :: 64 mpf_codec_frame_t"
  have d: "dissect bare_vtable = None" by (simp add: bare_vtable_def)
  have ap: "cells_apart (mem ?w) 3000 3008 2000" by (rule cells_apart_layout) simp
  have cp: "codec_apart ?w 0 3000 3008 2000" by (rule codec_apart_layout) simp
  have fr: "frame_at (mem ?w) 2000 = ?fr" by (rule layout_cells)
  have base: "mem ?w 100 = 100" "mem ?w 119 = 119" "mem ?w 120 = 120" "mem ?w 139 = 139"
    by (simp_all add: layout_outside in_region_def)
  from default_dissect_effect [OF vtable_of_layout d _ _ ap] obtain w1 where
    r1: "mpf_codec_dissect vts0 (Ptr 0) 3000 3008 2000 ?w = Some (True, w1)" and
    b1: "load (mem w1) 3000 = 120" and s1: "load (mem w1) 3008 = 30" and
    f1: "frame_at (mem w1) 2000 = frame_at (mem ?w) 2000" and
    p1: "\<forall>i. i < 20 \<longrightarrow> mem w1 (1000 + i) = mem ?w (100 + i)" and
    o1: "\<forall>a. \<not> in_region a 1000 20 \<and> \<not> in_region a 3000 8 \<and> \<not> in_region a 3008 8 \<longrightarrow>
            mem w1 a = mem ?w a" and
    a1: "codec_addr w1 = codec_addr ?w" and
    c1: "\<forall>n. codec_apart ?w n 3000 3008 2000 \<longrightarrow> codec_at w1 (Ptr n) = codec_at ?w (Ptr n)"
    by (auto simp: layout_cells word_bytes_64 simp del: codec_at.simps)
  have "codec_at w1 (Ptr 0) = codec_at ?w (Ptr 0)" using c1 cp by blast
  then have "vtable_of vts0 w1 (Ptr 0) = vtable_of vts0 ?w (Ptr 0)" by (rule vtable_of_cong)
  then have vt1: "vtable_of vts0 w1 (Ptr 0) = Some bare_vtable"
    by (simp only: vtable_of_layout)
  have ap1: "cells_apart (mem w1) 3000 3008 2000" using ap cells_apart_cong [OF f1] by simp
  have fr1: "frame_at (mem w1) 2000 = ?fr" using f1 fr by simp
  have m1: "mem w1 1000 = 100" "mem w1 1019 = 119"
    using p1 [rule_format, of 0] p1 [rule_format, of 19] base by simp_all
  have m1': "mem w1 120 = 120" "mem w1 139 = 139"
    using o1 [rule_format, of 120] o1 [rule_format, of 139] base
    by (simp_all add: in_region_def)
  from default_dissect_effect [OF vt1 d _ _ ap1] obtain w2 where
    r2: "mpf_codec_dissect vts0 (Ptr 0) 3000 3008 2000 w1 = Some (True, w2)" and
    b2: "load (mem w2) 3000 = 140" and s2: "load (mem w2) 3008 = 10" and
    f2: "frame_at (mem w2) 2000 = frame_at (mem w1) 2000" and
    p2: "\<forall>i. i < 20 \<longrightarrow> mem w2 (1000 + i) = mem w1 (120 + i)" and
    c2: "\<forall>n. codec_apart w1 n 3000 3008 2000 \<longrightarrow> codec_at w2 (Ptr n) = codec_at w1 (Ptr n)"
    by (auto simp: fr1 b1 s1 simp del: codec_at.simps)
  have cp1: "codec_apart w1 0 3000 3008 2000" using cp codec_apart_cong [OF f1 a1] by simp
  have "codec_at w2 (Ptr 0) = codec_at w1 (Ptr 0)" using c2 cp1 by blast
  then have "vtable_of vts0 w2 (Ptr 0) = vtable_of vts0 w1 (Ptr 0)" by (rule vtable_of_cong)
  then have vt2: "vtable_of vts0 w2 (Ptr 0) = Some bare_vtable" by (simp only: vt1)
  have fr2: "frame_at (mem w2) 2000 = ?fr" using f2 fr1 by simp
  have m2: "mem w2 1000 = 120" "mem w2 1019 = 139"
    using p2 [rule_format, of 0] p2 [rule_format, of 19] m1' by simp_all
  have r3: "mpf_codec_dissect vts0 (Ptr 0) 3000 3008 2000 w2 = Some (False, w2)"
    using vt2 d by (rule default_dissect_fails) (simp add: fr2 s2)
  from r1 b1 s1 m1 r2 b2 s2 m2 r3 show ?thesis by blast
qed

section \<open>The default dissector: success\<close>

text \<open>
  C1, as amended. For a codec whose family has no dissector, take a call with
  \<open>frame.size = F\<close>, \<open>F > 0\<close> and \<open>remaining_size \<ge> F\<close> (equality included), in which the
  frame's payload extent, the frame struct, the cell holding the buffer pointer and the
  cell holding \<open>remaining_size\<close> are pairwise disjoint regions of memory. The call returns
  success; the payload holds the first \<open>F\<close> bytes of the buffer as they were before the
  call; the buffer pointer has moved forward by \<open>F\<close> and \<open>remaining_size\<close> has gone down by
  \<open>F\<close>; the frame struct is as before; and no byte outside the payload extent and the two
  cells has changed.
\<close>

theorem default_dissect_success:
  assumes "vtable_of vts w codec = Some vt" and "dissect vt = None"
    and "size_f (frame_at (mem w) frame) \<noteq> 0"
    and "size_f (frame_at (mem w) frame) \<le> load (mem w) size_p"
    and "cells_apart (mem w) buffer_p size_p frame"
  shows "\<exists>w'. mpf_codec_dissect vts codec buffer_p size_p frame w = Some (True, w')
           \<and> load (mem w') buffer_p = load (mem w) buffer_p + size_f (frame_at (mem w) frame)
           \<and> load (mem w') size_p = load (mem w) size_p - size_f (frame_at (mem w) frame)
           \<and> frame_at (mem w') frame = frame_at (mem w) frame
           \<and> (\<forall>i. i < size_f (frame_at (mem w) frame) \<longrightarrow>
                 mem w' (buffer (frame_at (mem w) frame) + i) = mem w (load (mem w) buffer_p + i))
           \<and> (\<forall>a. \<not> in_region a (buffer (frame_at (mem w) frame))
                        (unat (size_f (frame_at (mem w) frame)))
                  \<and> \<not> in_region a buffer_p (word_bytes buffer_p)
                  \<and> \<not> in_region a size_p (word_bytes size_p) \<longrightarrow>
                 mem w' a = mem w a)"
proof -
  from default_dissect_effect [OF assms] obtain w' where
    "mpf_codec_dissect vts codec buffer_p size_p frame w = Some (True, w')"
    "load (mem w') buffer_p = load (mem w) buffer_p + size_f (frame_at (mem w) frame)"
    "load (mem w') size_p = load (mem w) size_p - size_f (frame_at (mem w) frame)"
    "frame_at (mem w') frame = frame_at (mem w) frame"
    "\<forall>i. i < size_f (frame_at (mem w) frame) \<longrightarrow>
       mem w' (buffer (frame_at (mem w) frame) + i) = mem w (load (mem w) buffer_p + i)"
    "\<forall>a. \<not> in_region a (buffer (frame_at (mem w) frame))
              (unat (size_f (frame_at (mem w) frame)))
        \<and> \<not> in_region a buffer_p (word_bytes buffer_p)
        \<and> \<not> in_region a size_p (word_bytes size_p) \<longrightarrow>
       mem w' a = mem w a"
    by blast
  then show ?thesis by blast
qed

theorem default_dissect_success_witness:
  "\<exists>w'. mpf_codec_dissect vts0 (Ptr 0) 3000 3008 2000 (layout 1000 20 100 20) = Some (True, w')
     \<and> load (mem w') 3000 = 120 \<and> load (mem w') 3008 = 0
     \<and> frame_at (mem w') 2000 = \<lparr>buffer = 1000, size_f = 20\<rparr>
     \<and> mem w' 1000 = 100 \<and> mem w' 1019 = 119
     \<and> mem w' 998 = 230 \<and> mem w' 1020 = 252"
proof -
  let ?w = "layout 1000 20 100 20"
  have ap: "cells_apart (mem ?w) 3000 3008 2000" by (rule cells_apart_layout) simp
  from default_dissect_success
    [of vts0 ?w "Ptr 0" bare_vtable 2000 3008 3000, OF vtable_of_layout _ _ _ ap]
  obtain w' where
    r: "mpf_codec_dissect vts0 (Ptr 0) 3000 3008 2000 ?w = Some (True, w')" and
    b: "load (mem w') 3000 = 120" and s: "load (mem w') 3008 = 0" and
    f: "frame_at (mem w') 2000 = \<lparr>buffer = 1000, size_f = 20\<rparr>" and
    p: "\<forall>i. i < 20 \<longrightarrow> mem w' (1000 + i) = mem ?w (100 + i)" and
    o: "\<forall>a. \<not> in_region a 1000 20 \<and> \<not> in_region a 3000 8 \<and> \<not> in_region a 3008 8 \<longrightarrow>
           mem w' a = mem ?w a"
    by (auto simp: bare_vtable_def layout_cells word_bytes_64)
  have "mem w' (1000 + 0) = mem ?w (100 + 0)" using p [rule_format, of 0] by simp
  then have p0: "mem w' 1000 = 100" by (simp add: layout_outside in_region_def)
  have "mem w' (1000 + 19) = mem ?w (100 + 19)" using p [rule_format, of 19] by simp
  then have p19: "mem w' 1019 = 119" by (simp add: layout_outside in_region_def)
  have "mem w' 998 = mem ?w 998" using o [rule_format, of 998] by (simp add: in_region_def)
  then have o1: "mem w' 998 = 230" by (simp add: layout_outside in_region_def)
  have "mem w' 1020 = mem ?w 1020" using o [rule_format, of 1020] by (simp add: in_region_def)
  then have o2: "mem w' 1020 = 252" by (simp add: layout_outside in_region_def)
  from r b s f p0 p19 o1 o2 show ?thesis by blast
qed

text \<open>
  Without the disjointness the statement fails on the code. With the frame's buffer
  pointer at the cell \<^verbatim>\<open>*size\<close>, \<open>F = 8\<close> and 50 bytes remaining, the copy overwrites the
  cell before line 191 reads it again: the call returns success and leaves
  \<open>remaining_size\<close> at the first eight packet bytes minus 8, not at 42.
\<close>

theorem default_dissect_success_counterexample:
  "size_f (frame_at (mem w_payload_on_size) 2000) = 8
   \<and> load (mem w_payload_on_size) 3008 = 50
   \<and> map_option fst (mpf_codec_dissect vts0 (Ptr 0) 3000 3008 2000 w_payload_on_size) = Some True
   \<and> load (mem (snd (the (mpf_codec_dissect vts0 (Ptr 0) 3000 3008 2000 w_payload_on_size))))
        3008 = 0x6b6a69686766655c
   \<and> load (mem (snd (the (mpf_codec_dissect vts0 (Ptr 0) 3000 3008 2000 w_payload_on_size))))
        3008 \<noteq> 50 - 8"
  using run_payload_on_size by (auto simp: w_payload_on_size_def layout_cells)




section \<open>The default dissector: failure\<close>

text \<open>
  C2. For a codec whose family has no dissector, the call fails exactly when
  \<open>frame.size = 0\<close> or \<open>remaining_size < frame.size\<close>. A failing call returns the whole
  state as it received it: the buffer pointer, \<open>remaining_size\<close>, the frame and every
  other byte are unchanged; so a call with \<open>frame.size = 0\<close> always fails and changes
  nothing. In every other case the call succeeds.
\<close>

theorem default_dissect_failure:
  assumes "vtable_of vts w codec = Some vt" and "dissect vt = None"
  shows "(size_f (frame_at (mem w) frame) = 0
            \<or> load (mem w) size_p < size_f (frame_at (mem w) frame) \<longrightarrow>
            mpf_codec_dissect vts codec buffer_p size_p frame w = Some (False, w))
       \<and> (\<not> (size_f (frame_at (mem w) frame) = 0
               \<or> load (mem w) size_p < size_f (frame_at (mem w) frame)) \<longrightarrow>
            (\<exists>w'. mpf_codec_dissect vts codec buffer_p size_p frame w = Some (True, w')))"
  using assms by (simp add: mpf_codec_dissect_def not_less Let_def)

theorem default_dissect_failure_witness:
  "mpf_codec_dissect vts0 (Ptr 0) 3000 3008 2000 (layout 1000 0 100 20) =
     Some (False, layout 1000 0 100 20)
   \<and> mpf_codec_dissect vts0 (Ptr 0) 3000 3008 2000 (layout 1000 20 100 19) =
     Some (False, layout 1000 20 100 19)
   \<and> (\<exists>w'. mpf_codec_dissect vts0 (Ptr 0) 3000 3008 2000 (layout 1000 20 100 20) =
     Some (True, w'))"
  using default_dissect_failure
      [of vts0 "layout 1000 0 100 20" "Ptr 0" bare_vtable 2000 3008 3000]
    default_dissect_failure
      [of vts0 "layout 1000 20 100 19" "Ptr 0" bare_vtable 2000 3008 3000]
    default_dissect_failure
      [of vts0 "layout 1000 20 100 20" "Ptr 0" bare_vtable 2000 3008 3000]
  by (simp add: vtable_of_layout bare_vtable_def layout_cells)

section \<open>Silence fill, encode and decode\<close>

text \<open>
  C4. For a frame of declared size \<open>N\<close>, \<open>fill\<close> on a codec whose family has no fill
  method returns success, and afterwards each of the \<open>N\<close> bytes from the frame's buffer
  address on is zero (buffer address and size as the frame held them at the call).
\<close>

theorem default_fill_zero:
  assumes "vtable_of vts w codec = Some vt" and "fill vt = None"
  shows "\<exists>w'. mpf_codec_fill vts codec frame_out w = Some (True, w')
           \<and> (\<forall>i. i < size_f (frame_at (mem w) frame_out) \<longrightarrow>
                 mem w' (buffer (frame_at (mem w) frame_out) + i) = 0)"
  using assms by (simp add: mpf_codec_fill_def write_mem_simps memset_inside)

theorem default_fill_zero_witness:
  "\<exists>w'. mpf_codec_fill vts0 (Ptr 0) 2000 (layout 1000 160 100 50) = Some (True, w')
     \<and> mem w' 1000 = 0 \<and> mem w' 1159 = 0"
proof -
  obtain w' where
    r: "mpf_codec_fill vts0 (Ptr 0) 2000 (layout 1000 160 100 50) = Some (True, w')"
    and c: "\<forall>i. i < 160 \<longrightarrow> mem w' (1000 + i) = 0"
    using default_fill_zero [of vts0 "layout 1000 160 100 50" "Ptr 0" bare_vtable 2000]
    by (auto simp: vtable_of_layout bare_vtable_def layout_cells)
  have "mem w' (1000 + 0) = 0" using c [rule_format, of 0] by simp
  moreover have "mem w' (1000 + 159) = 0" using c [rule_format, of 159] by simp
  ultimately show ?thesis using r by simp
qed

text \<open>
  C5. When the family has no encode method, \<open>encode\<close> returns success and hands back the
  whole state, the output frame and the memory holding its payload included, as it was
  before the call; likewise \<open>decode\<close> when the family has no decode method.
\<close>

theorem absent_transcode_noop:
  assumes "vtable_of vts w codec = Some vt"
  shows "(encode vt = None \<longrightarrow>
            mpf_codec_encode vts codec frame_in frame_out w = Some (True, w))
       \<and> (decode vt = None \<longrightarrow>
            mpf_codec_decode vts codec frame_in frame_out w = Some (True, w))"
  using assms by (simp add: mpf_codec_encode_def mpf_codec_decode_def)

theorem absent_transcode_noop_witness:
  "mpf_codec_encode vts0 (Ptr 0) 4000 2000 (layout 1000 160 100 50) =
     Some (True, layout 1000 160 100 50)
   \<and> mpf_codec_decode vts0 (Ptr 0) 4000 2000 (layout 1000 320 100 50) =
     Some (True, layout 1000 320 100 50)"
  using absent_transcode_noop [of vts0 "layout 1000 160 100 50" "Ptr 0" bare_vtable 4000 2000]
    absent_transcode_noop [of vts0 "layout 1000 320 100 50" "Ptr 0" bare_vtable 4000 2000]
  by (simp add: vtable_of_layout bare_vtable_def)

section \<open>What the default operations write\<close>




section \<open>Lifecycle\<close>

text \<open>
  C6. For each of \<open>open_encoder\<close>, \<open>close_encoder\<close>, \<open>open_decoder\<close> and \<open>close_decoder\<close>:
  when the family has no method for the operation, the call returns success and the
  state, the codec's included, is unchanged; when it has one, the call returns exactly
  what that method returns on the same codec and state.
\<close>

theorem lifecycle_dispatch:
  assumes "vtable_of vts w codec = Some vt"
  shows "(open_encoder vt = None \<longrightarrow> mpf_codec_encoder_open vts codec w = Some (True, w))
       \<and> (\<forall>f. open_encoder vt = Some f \<longrightarrow> mpf_codec_encoder_open vts codec w = f codec w)
       \<and> (close_encoder vt = None \<longrightarrow> mpf_codec_encoder_close vts codec w = Some (True, w))
       \<and> (\<forall>f. close_encoder vt = Some f \<longrightarrow> mpf_codec_encoder_close vts codec w = f codec w)
       \<and> (open_decoder vt = None \<longrightarrow> mpf_codec_decoder_open vts codec w = Some (True, w))
       \<and> (\<forall>f. open_decoder vt = Some f \<longrightarrow> mpf_codec_decoder_open vts codec w = f codec w)
       \<and> (close_decoder vt = None \<longrightarrow> mpf_codec_decoder_close vts codec w = Some (True, w))
       \<and> (\<forall>f. close_decoder vt = Some f \<longrightarrow> mpf_codec_decoder_close vts codec w = f codec w)"
  using assms
  by (simp add: mpf_codec_encoder_open_def mpf_codec_encoder_close_def
      mpf_codec_decoder_open_def mpf_codec_decoder_close_def)

theorem lifecycle_dispatch_witness:
  "mpf_codec_encoder_open vts0 (Ptr 0) w0 = Some (True, w0)
   \<and> mpf_codec_encoder_close vts0 (Ptr 0) w0 = Some (True, w0)
   \<and> mpf_codec_decoder_open vts0 (Ptr 0) w0 = Some (True, w0)
   \<and> mpf_codec_decoder_close vts0 (Ptr 0) w0 = Some (True, w0)
   \<and> mpf_codec_encoder_open vts0 (Ptr 1) w0 =
       Some (True, w0\<lparr>codecs := [Some codec0, Some (codec1\<lparr>encoder_obj := Ptr 100\<rparr>)]\<rparr>)
   \<and> mpf_codec_decoder_close vts0 (Ptr 1) w0 = Some (False, w0)"
proof -
  note a = lifecycle_dispatch [of vts0 w0 "Ptr 0" bare_vtable, OF vtable_of_w0]
  note b = lifecycle_dispatch [of vts0 w0 "Ptr 1" stateful_vtable, OF vtable_of_w0_stateful]
  have "mpf_codec_encoder_open vts0 (Ptr 1) w0 =
          storing_method True (\<lambda>obj. obj\<lparr>encoder_obj := Ptr 100\<rparr>) (Ptr 1) w0"
    using b by (simp add: stateful_vtable_def)
  moreover have "storing_method True (\<lambda>obj. obj\<lparr>encoder_obj := Ptr 100\<rparr>) (Ptr 1) w0 =
          Some (True, w0\<lparr>codecs := [Some codec0, Some (codec1\<lparr>encoder_obj := Ptr 100\<rparr>)]\<rparr>)"
    by (simp add: storing_method_def w0_def)
  moreover have "mpf_codec_decoder_close vts0 (Ptr 1) w0 = Some (False, w0)"
    using b by (simp add: stateful_vtable_def)
  ultimately show ?thesis using a by (simp add: bare_vtable_def)
qed

section \<open>Construction and cloning\<close>

text \<open>
  C8. \<open>create\<close> returns a pointer to a new codec object (the pointer named no object
  before) whose method table, attributes, descriptor and pool are the four arguments
  and whose encoder and decoder objects are \<^verbatim>\<open>NULL\<close>. It does so for every choice of
  arguments, \<^verbatim>\<open>NULL\<close> included: nothing is validated.
\<close>

theorem create_fields:
  "case mpf_codec_create vtable_p attribs_p descriptor pool_p w of
     (codec, w') \<Rightarrow>
       codec_at w' codec =
         Some \<lparr>vtable = vtable_p, attribs = attribs_p, static_descriptor = descriptor,
               encoder_obj = NULL, decoder_obj = NULL, pool = pool_p\<rparr>
     \<and> codec_at w codec = None
     \<and> mem w' = mem w"
  by (simp add: mpf_codec_create_def Let_def)

theorem create_fields_witness:
  "mpf_codec_create NULL NULL NULL (Ptr 7) w0 =
     (Ptr 2, w0\<lparr>codecs := [Some codec0, Some codec1,
        Some \<lparr>vtable = NULL, attribs = NULL, static_descriptor = NULL,
              encoder_obj = NULL, decoder_obj = NULL, pool = Ptr 7\<rparr>]\<rparr>)
   \<and> codec_at (snd (mpf_codec_create NULL NULL NULL (Ptr 7) w0))
        (fst (mpf_codec_create NULL NULL NULL (Ptr 7) w0)) =
       Some \<lparr>vtable = NULL, attribs = NULL, static_descriptor = NULL,
             encoder_obj = NULL, decoder_obj = NULL, pool = Ptr 7\<rparr>"
  using create_fields [of NULL NULL NULL "Ptr 7" w0]
  by (simp add: mpf_codec_create_def w0_def split: prod.splits)

text \<open>
  C7. \<open>clone\<close> of a valid source returns a pointer to a new object, distinct from the
  source, whose method table, attributes and descriptor are the source's pointers, whose
  encoder and decoder objects are \<^verbatim>\<open>NULL\<close> and whose pool is the given one; the source is
  as before. Afterwards a store to any field of the clone leaves the source as it was and
  a store to any field of the source leaves the clone as it was; in particular
  \<open>open_encoder\<close> on one of them, with a family method that stores into the codec it is
  handed, does not change the other.
\<close>

theorem clone_independent:
  assumes "codec_at w src_codec = Some src"
  shows "\<exists>codec w'.
           mpf_codec_clone src_codec pool_p w = Some (codec, w')
         \<and> codec_at w' codec =
             Some \<lparr>vtable = vtable src, attribs = attribs src,
                   static_descriptor = static_descriptor src,
                   encoder_obj = NULL, decoder_obj = NULL, pool = pool_p\<rparr>
         \<and> codec_at w codec = None
         \<and> codec_at w' src_codec = Some src
         \<and> codec \<noteq> src_codec
         \<and> (\<forall>g. case codec_update codec g w' of
                  None \<Rightarrow> False
                | Some w'' \<Rightarrow> codec_at w'' src_codec = Some src)
         \<and> (\<forall>g. case codec_update src_codec g w' of
                  None \<Rightarrow> False
                | Some w'' \<Rightarrow> codec_at w'' codec = codec_at w' codec)
         \<and> (\<forall>vts vt g rv.
               vtable_of vts w' codec = Some vt
               \<and> open_encoder vt = Some (storing_method rv g) \<longrightarrow>
               (case mpf_codec_encoder_open vts codec w' of
                  None \<Rightarrow> False
                | Some (rv', w'') \<Rightarrow> codec_at w'' src_codec = Some src))
         \<and> (\<forall>vts vt g rv.
               vtable_of vts w' src_codec = Some vt
               \<and> open_encoder vt = Some (storing_method rv g) \<longrightarrow>
               (case mpf_codec_encoder_open vts src_codec w' of
                  None \<Rightarrow> False
                | Some (rv', w'') \<Rightarrow> codec_at w'' codec = codec_at w' codec))"
proof -
  let ?c = "Ptr (length (codecs w))"
  let ?d = "\<lparr>vtable = vtable src, attribs = attribs src,
             static_descriptor = static_descriptor src,
             encoder_obj = NULL, decoder_obj = NULL, pool = pool_p\<rparr>"
  let ?w = "w\<lparr>codecs := codecs w @ [Some ?d]\<rparr>"
  have r: "mpf_codec_clone src_codec pool_p w = Some (?c, ?w)"
    using assms by (simp add: mpf_codec_clone_def Let_def)
  have new: "codec_at ?w ?c = Some ?d" by (rule codec_at_append_new)
  have fresh: "codec_at w ?c = None" by simp
  have old: "codec_at ?w src_codec = Some src"
    using assms by (rule codec_at_append_old)
  have neq: "?c \<noteq> src_codec" using assms by (rule codec_at_valid_neq_fresh)
  have u1: "case codec_update ?c g ?w of
              None \<Rightarrow> False
            | Some w'' \<Rightarrow> codec_at w'' src_codec = Some src" for g
  proof -
    from codec_update_valid [OF new, of g] obtain w'' where
      "codec_update ?c g ?w = Some w''" and
      "\<forall>q. q \<noteq> ?c \<longrightarrow> codec_at w'' q = codec_at ?w q"
      by blast
    with neq old show ?thesis by (simp del: codec_at.simps codec_update.simps)
  qed
  have u2: "case codec_update src_codec g ?w of
              None \<Rightarrow> False
            | Some w'' \<Rightarrow> codec_at w'' ?c = codec_at ?w ?c" for g
  proof -
    from codec_update_valid [OF old, of g] obtain w'' where
      "codec_update src_codec g ?w = Some w''" and
      "\<forall>q. q \<noteq> src_codec \<longrightarrow> codec_at w'' q = codec_at ?w q"
      by blast
    with neq show ?thesis by (simp del: codec_at.simps codec_update.simps)
  qed
  have o1: "\<forall>vts vt g rv.
               vtable_of vts ?w ?c = Some vt
               \<and> open_encoder vt = Some (storing_method rv g) \<longrightarrow>
               (case mpf_codec_encoder_open vts ?c ?w of
                  None \<Rightarrow> False
                | Some (rv', w'') \<Rightarrow> codec_at w'' src_codec = Some src)"
  proof (intro allI impI, elim conjE)
    fix vts :: "'a vtables" and vt g rv
    assume "vtable_of vts ?w ?c = Some vt" and "open_encoder vt = Some (storing_method rv g)"
    then have "mpf_codec_encoder_open vts ?c ?w = storing_method rv g ?c ?w"
      by (simp add: mpf_codec_encoder_open_def del: codec_at.simps codec_update.simps)
    with u1 [of g] show
      "case mpf_codec_encoder_open vts ?c ?w of
         None \<Rightarrow> False
       | Some (rv', w'') \<Rightarrow> codec_at w'' src_codec = Some src"
      by (simp add: storing_method_def split: option.splits
          del: codec_at.simps codec_update.simps)
  qed
  have o2: "\<forall>vts vt g rv.
               vtable_of vts ?w src_codec = Some vt
               \<and> open_encoder vt = Some (storing_method rv g) \<longrightarrow>
               (case mpf_codec_encoder_open vts src_codec ?w of
                  None \<Rightarrow> False
                | Some (rv', w'') \<Rightarrow> codec_at w'' ?c = codec_at ?w ?c)"
  proof (intro allI impI, elim conjE)
    fix vts :: "'a vtables" and vt g rv
    assume "vtable_of vts ?w src_codec = Some vt"
      and "open_encoder vt = Some (storing_method rv g)"
    then have "mpf_codec_encoder_open vts src_codec ?w = storing_method rv g src_codec ?w"
      by (simp add: mpf_codec_encoder_open_def del: codec_at.simps codec_update.simps)
    with u2 [of g] show
      "case mpf_codec_encoder_open vts src_codec ?w of
         None \<Rightarrow> False
       | Some (rv', w'') \<Rightarrow> codec_at w'' ?c = codec_at ?w ?c"
      by (simp add: storing_method_def split: option.splits
          del: codec_at.simps codec_update.simps)
  qed
  from u1 have u1': "\<forall>g. case codec_update ?c g ?w of
              None \<Rightarrow> False
            | Some w'' \<Rightarrow> codec_at w'' src_codec = Some src" by blast
  from u2 have u2': "\<forall>g. case codec_update src_codec g ?w of
              None \<Rightarrow> False
            | Some w'' \<Rightarrow> codec_at w'' ?c = codec_at ?w ?c" by blast
  from r new fresh old neq u1' u2' o1 o2 show ?thesis by blast
qed

theorem clone_independent_witness:
  "\<exists>codec w'.
     mpf_codec_clone (Ptr 1) (Ptr 9) w0 = Some (codec, w')
   \<and> codec = Ptr 2
   \<and> codec_at w' codec =
       Some \<lparr>vtable = Ptr 1, attribs = Ptr 2, static_descriptor = Ptr 3,
             encoder_obj = NULL, decoder_obj = NULL, pool = Ptr 9\<rparr>
   \<and> codec_at w' (Ptr 1) = Some codec1
   \<and> (case mpf_codec_encoder_open vts0 codec w' of
         None \<Rightarrow> False
       | Some (rv, w'') \<Rightarrow>
           codec_at w'' (Ptr 1) = Some codec1
         \<and> map_option encoder_obj (codec_at w'' codec) = Some (Ptr 100))"
proof -
  let ?g = "\<lambda>obj. obj\<lparr>encoder_obj := Ptr 100\<rparr>"
  let ?d = "\<lparr>vtable = Ptr 1, attribs = Ptr 2, static_descriptor = Ptr 3,
             encoder_obj = NULL, decoder_obj = NULL, pool = Ptr 9\<rparr>"
  have h: "codec_at w0 (Ptr 1) = Some codec1" by (simp add: w0_def)
  from clone_independent [OF h, of "Ptr 9"] obtain codec w' where
    r: "mpf_codec_clone (Ptr 1) (Ptr 9) w0 = Some (codec, w')" and
    n: "codec_at w' codec =
          Some \<lparr>vtable = vtable codec1, attribs = attribs codec1,
                static_descriptor = static_descriptor codec1,
                encoder_obj = NULL, decoder_obj = NULL, pool = Ptr 9\<rparr>" and
    o: "codec_at w' (Ptr 1) = Some codec1" and
    e: "\<forall>vts vt g rv.
          vtable_of vts w' codec = Some vt
          \<and> open_encoder vt = Some (storing_method rv g) \<longrightarrow>
          (case mpf_codec_encoder_open vts codec w' of
             None \<Rightarrow> False
           | Some (rv', w'') \<Rightarrow> codec_at w'' (Ptr 1) = Some codec1)"
    by blast
  have c: "mpf_codec_clone (Ptr 1) (Ptr 9) w0 =
             Some (Ptr 2, w0\<lparr>codecs := codecs w0 @ [Some ?d]\<rparr>)"
    by (simp add: mpf_codec_clone_def w0_def codec1_def)
  from r c have p: "codec = Ptr 2" and w: "w' = w0\<lparr>codecs := codecs w0 @ [Some ?d]\<rparr>"
    by simp_all
  have v: "vtable_of vts0 w' codec = Some stateful_vtable"
    using n by (simp add: vtable_of_def codec1_def vts0_def)
  have m: "open_encoder stateful_vtable = Some (storing_method True ?g)"
    by (simp add: stateful_vtable_def)
  have src_kept: "case mpf_codec_encoder_open vts0 codec w' of
                    None \<Rightarrow> False
                  | Some (rv', w'') \<Rightarrow> codec_at w'' (Ptr 1) = Some codec1"
    using e v m by blast
  have run: "mpf_codec_encoder_open vts0 codec w' =
               Some (True, w0\<lparr>codecs := [Some codec0, Some codec1,
                                          Some (?d\<lparr>encoder_obj := Ptr 100\<rparr>)]\<rparr>)"
    using v m unfolding p w
    by (simp add: mpf_codec_encoder_open_def storing_method_def w0_def)
  let ?w2 = "w0\<lparr>codecs := [Some codec0, Some codec1,
                             Some (?d\<lparr>encoder_obj := Ptr 100\<rparr>)]\<rparr>"
  from src_kept have k: "codec_at ?w2 (Ptr 1) = Some codec1"
    unfolding run by simp
  have enc: "map_option encoder_obj (codec_at ?w2 codec) = Some (Ptr 100)"
    unfolding p by simp
  have last: "case mpf_codec_encoder_open vts0 codec w' of
                None \<Rightarrow> False
              | Some (rv, w'') \<Rightarrow>
                  codec_at w'' (Ptr 1) = Some codec1
                \<and> map_option encoder_obj (codec_at w'' codec) = Some (Ptr 100)"
    unfolding run using k enc by simp
  have n': "codec_at w' codec = Some ?d" using n by (simp add: codec1_def)
  from r p n' o last show ?thesis by blast
qed

section \<open>Dissecting a whole buffer\<close>

text \<open>
  C3, as amended. Take a buffer of \<open>S\<close> bytes, a frame size \<open>F > 0\<close> and a codec whose
  family has no dissector, with the frame's payload extent, the frame struct and the two
  cells holding the buffer pointer and \<open>remaining_size\<close> pairwise disjoint, and the codec
  object disjoint from the payload extent and the two cells. Calling the default
  dissector \<open>n\<close> times in a row always returns, and with \<open>k = S div F\<close>: call number \<open>i\<close>
  (counted from 0) succeeds exactly when \<open>i < k\<close>; a succeeding call leaves the buffer
  pointer at \<open>(i + 1) * F\<close> bytes from the start with \<open>S - (i + 1) * F\<close> bytes remaining;
  every later call fails and leaves the pointer at \<open>k * F\<close> with \<open>S mod F\<close> bytes remaining;
  and after every call the distance of the pointer from the start plus the remaining
  size is \<open>S\<close>, as natural numbers, so the pointer is never beyond the end of the buffer.
  For \<open>S = 50\<close> and \<open>F = 20\<close>: two successes, taking bytes 0 to 19 and then 20 to 39,
  leave 10 bytes, and the third call fails with 10 bytes still remaining.
\<close>

theorem default_dissect_exhaustion:
  assumes "vtable_of vts w (Ptr c) = Some vt" and "dissect vt = None"
    and "size_f (frame_at (mem w) frame) \<noteq> 0"
    and "cells_apart (mem w) buffer_p size_p frame"
    and "codec_apart w c buffer_p size_p frame"
  shows "\<exists>tr w'.
           dissect_calls vts (Ptr c) n buffer_p size_p frame w = Some (tr, w')
         \<and> length tr = n
         \<and> frame_at (mem w') frame = frame_at (mem w) frame
         \<and> (\<forall>i<n. fst (tr ! i)
               = (i < unat (load (mem w) size_p) div unat (size_f (frame_at (mem w) frame))))
         \<and> (\<forall>i<n. i < unat (load (mem w) size_p) div unat (size_f (frame_at (mem w) frame)) \<longrightarrow>
               tr ! i = (True,
                         load (mem w) buffer_p + of_nat (Suc i) * size_f (frame_at (mem w) frame),
                         load (mem w) size_p - of_nat (Suc i) * size_f (frame_at (mem w) frame)))
         \<and> (\<forall>i<n. unat (load (mem w) size_p) div unat (size_f (frame_at (mem w) frame)) \<le> i \<longrightarrow>
               tr ! i = (False,
                         load (mem w) buffer_p
                           + of_nat (unat (load (mem w) size_p)
                                       div unat (size_f (frame_at (mem w) frame)))
                             * size_f (frame_at (mem w) frame),
                         of_nat (unat (load (mem w) size_p)
                                   mod unat (size_f (frame_at (mem w) frame)))))
         \<and> (\<forall>i<n. case tr ! i of (rv, b, s) \<Rightarrow>
               unat (b - load (mem w) buffer_p) + unat s = unat (load (mem w) size_p))"
proof -
  let ?F = "size_f (frame_at (mem w) frame)"
  let ?buf = "load (mem w) buffer_p"
  let ?sz = "load (mem w) size_p"
  let ?k = "unat ?sz div unat ?F"
  let ?f = "\<lambda>i. (i < ?k, ?buf + of_nat (min (Suc i) ?k) * ?F, ?sz - of_nat (min (Suc i) ?k) * ?F)"
  from dissect_calls_default
    [OF assms(2) assms(3) assms(1) refl assms(4) assms(5) refl refl, of n]
  obtain w' where
    r: "dissect_calls vts (Ptr c) n buffer_p size_p frame w = Some (map ?f [0..<n], w')" and
    fr: "frame_at (mem w') frame = frame_at (mem w) frame"
    by blast
  have nth: "\<And>i. i < n \<Longrightarrow> map ?f [0..<n] ! i = ?f i" by simp
  have a: "\<forall>i<n. fst (map ?f [0..<n] ! i) = (i < ?k)" by simp
  have b: "\<forall>i<n. i < ?k \<longrightarrow>
             map ?f [0..<n] ! i = (True, ?buf + of_nat (Suc i) * ?F, ?sz - of_nat (Suc i) * ?F)"
  proof (intro allI impI)
    fix i assume "i < n" and "i < ?k"
    then have "min (Suc i) ?k = Suc i" by simp
    with \<open>i < n\<close> \<open>i < ?k\<close> show
      "map ?f [0..<n] ! i = (True, ?buf + of_nat (Suc i) * ?F, ?sz - of_nat (Suc i) * ?F)"
      by (simp only: nth)
  qed
  have c: "\<forall>i<n. ?k \<le> i \<longrightarrow>
             map ?f [0..<n] ! i = (False, ?buf + of_nat ?k * ?F, of_nat (unat ?sz mod unat ?F))"
  proof (intro allI impI)
    fix i assume "i < n" and "?k \<le> i"
    then have "min (Suc i) ?k = ?k" by simp
    with \<open>i < n\<close> \<open>?k \<le> i\<close> show
      "map ?f [0..<n] ! i = (False, ?buf + of_nat ?k * ?F, of_nat (unat ?sz mod unat ?F))"
      by (simp only: nth remainder_word) simp
  qed
  have e: "\<forall>i<n. case map ?f [0..<n] ! i of (rv, b, s) \<Rightarrow> unat (b - ?buf) + unat s = unat ?sz"
  proof (intro allI impI)
    fix i assume "i < n"
    have "unat (?buf + of_nat (min (Suc i) ?k) * ?F - ?buf)
            + unat (?sz - of_nat (min (Suc i) ?k) * ?F) = unat ?sz"
      by (rule cursor_in_bounds) simp
    with \<open>i < n\<close> show
      "case map ?f [0..<n] ! i of (rv, b, s) \<Rightarrow> unat (b - ?buf) + unat s = unat ?sz"
      by (simp only: nth prod.case)
  qed
  have l: "length (map ?f [0..<n]) = n" by simp
  from r l fr a b c e show ?thesis by blast
qed

theorem default_dissect_exhaustion_witness:
  "\<exists>tr w'.
     dissect_calls vts0 (Ptr 0) 3 3000 3008 2000 (layout 1000 20 100 50) = Some (tr, w')
   \<and> tr = [(True, 120, 30), (True, 140, 10), (False, 140, 10)]
   \<and> frame_at (mem w') 2000 = \<lparr>buffer = 1000, size_f = 20\<rparr>
   \<and> mem w' 1000 = 120 \<and> mem w' 1019 = 139
   \<and> (\<exists>w1. dissect_calls vts0 (Ptr 0) 1 3000 3008 2000 (layout 1000 20 100 50) =
              Some ([(True, 120, 30)], w1)
           \<and> mem w1 1000 = 100 \<and> mem w1 1019 = 119)"
proof -
  let ?w = "layout 1000 20 100 50"
  let ?fr = "\<lparr>buffer = 1000, size_f = 20\<rparr> :: 64 mpf_codec_frame_t"
  have d: "dissect bare_vtable = None" by (simp add: bare_vtable_def)
  have fr: "frame_at (mem ?w) 2000 = ?fr" by (rule layout_cells)
  have nz: "size_f (frame_at (mem ?w) 2000) \<noteq> 0" by (simp add: layout_cells)
  have ap: "cells_apart (mem ?w) 3000 3008 2000" by (rule cells_apart_layout) simp
  have cp: "codec_apart ?w 0 3000 3008 2000" by (rule codec_apart_layout) simp
  have k: "unat (load (mem ?w) 3008) div unat (size_f (frame_at (mem ?w) 2000)) = 2"
    by (simp add: layout_cells)
  have m: "unat (load (mem ?w) 3008) mod unat (size_f (frame_at (mem ?w) 2000)) = 10"
    by (simp add: layout_cells)
  from default_dissect_exhaustion [OF vtable_of_layout d nz ap cp, where n = 3]
  obtain tr w' where
    r: "dissect_calls vts0 (Ptr 0) 3 3000 3008 2000 ?w = Some (tr, w')" and
    len: "length tr = 3" and
    fin: "frame_at (mem w') 2000 = frame_at (mem ?w) 2000" and
    ok: "\<forall>i<3. i < unat (load (mem ?w) 3008) div unat (size_f (frame_at (mem ?w) 2000)) \<longrightarrow>
           tr ! i = (True,
                     load (mem ?w) 3000 + of_nat (Suc i) * size_f (frame_at (mem ?w) 2000),
                     load (mem ?w) 3008 - of_nat (Suc i) * size_f (frame_at (mem ?w) 2000))" and
    bad: "\<forall>i<3. unat (load (mem ?w) 3008) div unat (size_f (frame_at (mem ?w) 2000)) \<le> i \<longrightarrow>
           tr ! i = (False,
                     load (mem ?w) 3000
                       + of_nat (unat (load (mem ?w) 3008)
                                   div unat (size_f (frame_at (mem ?w) 2000)))
                         * size_f (frame_at (mem ?w) 2000),
                     of_nat (unat (load (mem ?w) 3008)
                               mod unat (size_f (frame_at (mem ?w) 2000))))"
    by blast
  have t0: "tr ! 0 = (True, 120, 30)"
    using ok [rule_format, of 0] by (simp only: k) (simp add: layout_cells)
  have t1: "tr ! 1 = (True, 140, 10)"
    using ok [rule_format, of 1] by (simp only: k) (simp add: layout_cells)
  have t2: "tr ! 2 = (False, 140, 10)"
    using bad [rule_format, of 2] by (simp only: k m) (simp add: layout_cells)
  from len obtain a b c where abc: "tr = [a, b, c]"
    by (auto simp: numeral_3_eq_3 length_Suc_conv)
  with t0 t1 t2 have tr: "tr = [(True, 120, 30), (True, 140, 10), (False, 140, 10)]"
    by simp
  from scenario_50_20 obtain w1 w2 where
    r1: "mpf_codec_dissect vts0 (Ptr 0) 3000 3008 2000 ?w = Some (True, w1)" and
    v1: "load (mem w1) 3000 = 120" "load (mem w1) 3008 = 30" and
    m1: "mem w1 1000 = 100" "mem w1 1019 = 119" and
    r2: "mpf_codec_dissect vts0 (Ptr 0) 3000 3008 2000 w1 = Some (True, w2)" and
    m2: "mem w2 1000 = 120" "mem w2 1019 = 139" and
    r3: "mpf_codec_dissect vts0 (Ptr 0) 3000 3008 2000 w2 = Some (False, w2)"
    by blast
  have "dissect_calls vts0 (Ptr 0) 3 3000 3008 2000 ?w
          = Some ([(True, load (mem w1) 3000, load (mem w1) 3008),
                   (True, load (mem w2) 3000, load (mem w2) 3008),
                   (False, load (mem w2) 3000, load (mem w2) 3008)], w2)"
    by (simp add: numeral_3_eq_3 r1 r2 r3)
  with r have w': "w' = w2" by simp
  have one: "dissect_calls vts0 (Ptr 0) 1 3000 3008 2000 ?w = Some ([(True, 120, 30)], w1)"
    by (simp add: r1 v1)
  have fin': "frame_at (mem w') 2000 = ?fr" using fin fr by simp
  from r tr fin' m2 one m1 show ?thesis unfolding w' by blast
qed

text \<open>
  Without the disjointness the statement fails on the code. With the frame's buffer
  pointer at the frame struct itself, \<open>frame.size = 16\<close> and a buffer of 50 bytes from
  address 100 on, the first call overwrites \<open>frame.size\<close> with packet bytes before line 190
  reads it again: the call returns success and leaves the buffer pointer more than
  \<open>2 ^ 62\<close> bytes beyond the start of a buffer of 50 bytes.
\<close>

theorem default_dissect_exhaustion_counterexample:
  "load (mem w_payload_on_frame) 3000 = 100
   \<and> load (mem w_payload_on_frame) 3008 = 50
   \<and> size_f (frame_at (mem w_payload_on_frame) 2000) = 16
   \<and> map_option fst (dissect_calls vts0 (Ptr 0) 1 3000 3008 2000 w_payload_on_frame)
        = Some [(True, 100 + 0x737271706f6e6d6c, 50 - 0x737271706f6e6d6c)]
   \<and> unat (50 :: 64 word) < unat ((100 + 0x737271706f6e6d6c :: 64 word) - 100)"
  using run_payload_on_frame
  by (auto simp: w_payload_on_frame_def layout_cells)

end
